theory Spec2Isabelle
  imports Main
begin

section \<open>Dialogue management of the agent framework (aea/helpers/dialogue/base.py)\<close>

subsection \<open>Python values\<close>

text \<open>
  A Python \<open>str\<close> object: its characters and its identity. The comparison \<open>==\<close> of the
  source looks at the characters only (\<open>sval\<close>); the comparison \<open>is\<close> of the source is
  equality of the whole object (two objects with the same characters and different
  identities are equal under \<open>==\<close> and different under \<open>is\<close>).
\<close>

datatype pystr = PyStr (sval: string) (oid: nat)

type_synonym Address = pystr

text \<open>The exceptions the module raises, each with the fixed part of its text.\<close>

datatype error =
    InvalidDialogueMessage string
  | SyntaxError string
  | AssertionError string
  | ValueError string
  | KeyError string
  | AttributeError string

definition UNASSIGNED_DIALOGUE_REFERENCE :: string where
  "UNASSIGNED_DIALOGUE_REFERENCE = []"

definition STARTING_MESSAGE_ID :: int where
  "STARTING_MESSAGE_ID = 1"

definition STARTING_TARGET :: int where
  "STARTING_TARGET = 0"

definition NONCE_BYTES_NB :: nat where
  "NONCE_BYTES_NB = 32"

subsection \<open>DialogueLabel\<close>

record DialogueLabel =
  label_dialogue_reference :: "string \<times> string"
  dialogue_opponent_addr :: Address
  dialogue_starter_addr :: Address

definition dialogue_starter_reference :: "DialogueLabel \<Rightarrow> string" where
  "dialogue_starter_reference l = fst (label_dialogue_reference l)"

definition dialogue_responder_reference :: "DialogueLabel \<Rightarrow> string" where
  "dialogue_responder_reference l = snd (label_dialogue_reference l)"

text \<open>\<open>DialogueLabel.__eq__\<close>: the reference and both addresses compared with \<open>==\<close>.\<close>

definition label_eq :: "DialogueLabel \<Rightarrow> DialogueLabel \<Rightarrow> bool" where
  "label_eq a b \<longleftrightarrow>
     label_dialogue_reference a = label_dialogue_reference b
     \<and> sval (dialogue_starter_addr a) = sval (dialogue_starter_addr b)
     \<and> sval (dialogue_opponent_addr a) = sval (dialogue_opponent_addr b)"

text \<open>
  What \<open>__hash__\<close> and \<open>__eq__\<close> together make of a label used as a dictionary key or a
  set member: the triple of its reference, opponent address and starter address, by value.
\<close>

type_synonym label_key = "(string \<times> string) \<times> string \<times> string"

definition label_key :: "DialogueLabel \<Rightarrow> label_key" where
  "label_key l =
     (label_dialogue_reference l, sval (dialogue_opponent_addr l), sval (dialogue_starter_addr l))"

definition get_incomplete_version :: "DialogueLabel \<Rightarrow> DialogueLabel" where
  "get_incomplete_version l =
     \<lparr> label_dialogue_reference = (dialogue_starter_reference l, UNASSIGNED_DIALOGUE_REFERENCE),
       dialogue_opponent_addr = dialogue_opponent_addr l,
       dialogue_starter_addr = dialogue_starter_addr l \<rparr>"

text \<open>\<open>DialogueLabel.__str__\<close>: the four components joined by underscores.\<close>

definition label_str :: "DialogueLabel \<Rightarrow> string" where
  "label_str l =
     dialogue_starter_reference l @ ''_'' @ dialogue_responder_reference l @ ''_''
     @ sval (dialogue_opponent_addr l) @ ''_'' @ sval (dialogue_starter_addr l)"

text \<open>Python's \<open>str.split(sep)\<close> for a separator of one character: every occurrence cuts.\<close>

fun split_py :: "char \<Rightarrow> string \<Rightarrow> string list" where
  "split_py c [] = [[]]"
| "split_py c (x # xs) =
     (if x = c then [] # split_py c xs
      else (case split_py c xs of
              w # ws \<Rightarrow> (x # w) # ws
            | [] \<Rightarrow> [[x]]))"

text \<open>
  \<open>DialogueLabel.from_str\<close>: the tuple assignment raises ValueError unless the split gives
  exactly four pieces. The pieces are new \<open>str\<close> objects; \<open>i\<close> and \<open>j\<close> are the identities
  the interpreter gives to the two address strings.
\<close>

definition from_str :: "nat \<Rightarrow> nat \<Rightarrow> string \<Rightarrow> error + DialogueLabel" where
  "from_str i j obj =
     (case split_py (CHR ''_'') obj of
        [a, b, c, d] \<Rightarrow>
          Inr \<lparr> label_dialogue_reference = (a, b),
                dialogue_opponent_addr = PyStr c i,
                dialogue_starter_addr = PyStr d j \<rparr>
      | _ \<Rightarrow> Inl (ValueError ''not enough or too many values to unpack''))"

subsection \<open>Message\<close>

text \<open>
  Modelled from the spec: the message class (aea.protocols.base.Message) is consumed, not
  defined, by this module. A message exposes \<open>dialogue_reference\<close>, \<open>message_id\<close>,
  \<open>target\<close>, \<open>performative\<close>, \<open>sender\<close>, \<open>to\<close> and the predicates \<open>has_sender\<close>,
  \<open>has_to\<close>; its payload (\<open>content\<close>) is never touched. Reading \<open>sender\<close> or \<open>to\<close>
  before it has been set fails an assertion of the message class (the source relies on
  this in \<open>Dialogues.update\<close>).
\<close>

record ('p, 'c) Message =
  dialogue_reference :: "string \<times> string"
  message_id :: int
  target :: int
  performative :: 'p
  content :: 'c
  sender :: "Address option"
  to :: "Address option"

definition has_sender :: "('p, 'c) Message \<Rightarrow> bool" where
  "has_sender m \<longleftrightarrow> sender m \<noteq> None"

definition has_to :: "('p, 'c) Message \<Rightarrow> bool" where
  "has_to m \<longleftrightarrow> to m \<noteq> None"

definition get_sender :: "('p, 'c) Message \<Rightarrow> error + Address" where
  "get_sender m =
     (case sender m of
        None \<Rightarrow> Inl (AssertionError ''Sender must not be None.'')
      | Some a \<Rightarrow> Inr a)"

definition get_to :: "('p, 'c) Message \<Rightarrow> error + Address" where
  "get_to m =
     (case to m of
        None \<Rightarrow> Inl (AssertionError ''To must not be None.'')
      | Some a \<Rightarrow> Inr a)"

subsection \<open>Dialogue\<close>

record ('p, 'c, 'r) Dialogue =
  agent_address :: Address
  incomplete_dialogue_label :: DialogueLabel
  dialogue_label :: DialogueLabel
  role :: 'r
  is_self_initiated :: bool
  outgoing_messages :: "('p, 'c) Message list"
  incoming_messages :: "('p, 'c) Message list"

text \<open>
  What a concrete protocol supplies to the abstract classes: the abstract properties
  \<open>initial_performatives\<close> and \<open>valid_replies\<close>, the abstract method \<open>is_valid\<close>, and
  the function \<open>role_from_first_message\<close> given to the registry.
\<close>

record ('p, 'c, 'r) protocol =
  initial_performatives :: "'p set"
  valid_replies :: "'p \<rightharpoonup> 'p set"
  is_valid :: "('p, 'c, 'r) Dialogue \<Rightarrow> ('p, 'c) Message \<Rightarrow> bool \<times> string"
  role_from_first_message :: "('p, 'c) Message \<Rightarrow> 'r"

text \<open>
  \<open>Dialogue.__init__\<close>. The flag is set by \<open>is not\<close>: the two address objects of the label
  are compared by identity.
\<close>

definition Dialogue_init :: "DialogueLabel \<Rightarrow> Address \<Rightarrow> 'r \<Rightarrow> ('p, 'c, 'r) Dialogue" where
  "Dialogue_init label addr r =
     \<lparr> agent_address = addr,
       incomplete_dialogue_label = get_incomplete_version label,
       dialogue_label = label,
       role = r,
       is_self_initiated = (dialogue_opponent_addr label \<noteq> dialogue_starter_addr label),
       outgoing_messages = [],
       incoming_messages = [] \<rparr>"

definition get_valid_replies :: "('p, 'c, 'r) protocol \<Rightarrow> 'p \<Rightarrow> error + 'p set" where
  "get_valid_replies P p =
     (case valid_replies P p of
        None \<Rightarrow> Inl (AssertionError ''this performative is not supported'')
      | Some s \<Rightarrow> Inr s)"

definition dialogue_labels :: "('p, 'c, 'r) Dialogue \<Rightarrow> label_key set" where
  "dialogue_labels d = {label_key (dialogue_label d), label_key (incomplete_dialogue_label d)}"

definition last_incoming_message :: "('p, 'c, 'r) Dialogue \<Rightarrow> ('p, 'c) Message option" where
  "last_incoming_message d =
     (if length (incoming_messages d) > 0 then Some (last (incoming_messages d)) else None)"

definition last_outgoing_message :: "('p, 'c, 'r) Dialogue \<Rightarrow> ('p, 'c) Message option" where
  "last_outgoing_message d =
     (if length (outgoing_messages d) > 0 then Some (last (outgoing_messages d)) else None)"

definition last_message :: "('p, 'c, 'r) Dialogue \<Rightarrow> ('p, 'c) Message option" where
  "last_message d =
     (case (last_incoming_message d, last_outgoing_message d) of
        (Some i, Some out) \<Rightarrow> Some (if message_id out > message_id i then out else i)
      | (Some i, None) \<Rightarrow> Some i
      | (None, Some out) \<Rightarrow> Some out
      | (None, None) \<Rightarrow> None)"

text \<open>
  \<open>Dialogue.get_message\<close>: two assertions, then the first message of
  \<open>outgoing + incoming\<close> with the id; the loop falls through to Python's \<open>None\<close> when
  there is none.
\<close>

definition get_message ::
  "('p, 'c, 'r) Dialogue \<Rightarrow> int \<Rightarrow> error + ('p, 'c) Message option" where
  "get_message d mid =
     (if \<not> 1 \<le> mid then
        Inl (AssertionError ''message_id must be greater than or equal to 1.'')
      else
        let list_of_all_messages = outgoing_messages d @ incoming_messages d in
        if \<not> mid \<le> int (length list_of_all_messages) then
          Inl (AssertionError ''This dialogue does not have a message with id.'')
        else Inr (find (\<lambda>m. message_id m = mid) list_of_all_messages))"

definition is_empty :: "('p, 'c, 'r) Dialogue \<Rightarrow> bool" where
  "is_empty d \<longleftrightarrow> length (outgoing_messages d) = 0 \<and> length (incoming_messages d) = 0"

definition Dialogue_is_message_by_self ::
  "('p, 'c, 'r) Dialogue \<Rightarrow> ('p, 'c) Message \<Rightarrow> error + bool" where
  "Dialogue_is_message_by_self d m =
     (case get_sender m of
        Inl e \<Rightarrow> Inl e
      | Inr s \<Rightarrow> Inr (sval s = sval (agent_address d)))"

definition is_belonging_to_dialogue ::
  "('p, 'c, 'r) Dialogue \<Rightarrow> ('p, 'c) Message \<Rightarrow> error + bool" where
  "is_belonging_to_dialogue d m =
     (if is_self_initiated d then
        (case Dialogue_is_message_by_self d m of
           Inl e \<Rightarrow> Inl e
         | Inr by_self \<Rightarrow>
             (case (if by_self then get_to m else get_sender m) of
                Inl e \<Rightarrow> Inl e
              | Inr opponent \<Rightarrow>
                  Inr (label_key
                         \<lparr> label_dialogue_reference =
                             (fst (dialogue_reference m), UNASSIGNED_DIALOGUE_REFERENCE),
                           dialogue_opponent_addr = opponent,
                           dialogue_starter_addr = agent_address d \<rparr>
                       \<in> dialogue_labels d)))
      else
        (case Dialogue_is_message_by_self d m of
           Inl e \<Rightarrow> Inl e
         | Inr by_self \<Rightarrow>
             (case (if by_self then get_to m else get_sender m) of
                Inl e \<Rightarrow> Inl e
              | Inr opponent \<Rightarrow>
                  Inr (label_key
                         \<lparr> label_dialogue_reference = dialogue_reference m,
                           dialogue_opponent_addr = opponent,
                           dialogue_starter_addr = opponent \<rparr>
                       \<in> dialogue_labels d))))"

definition basic_validation ::
  "('p, 'c, 'r) protocol \<Rightarrow> ('p, 'c, 'r) Dialogue \<Rightarrow> ('p, 'c) Message
     \<Rightarrow> error + (bool \<times> string)" where
  "basic_validation P d m =
     (case last_message d of
        None \<Rightarrow>
          (if \<not> fst (dialogue_reference m) = fst (label_dialogue_reference (dialogue_label d))
           then Inr (False, ''Invalid dialogue_reference[0].'')
           else if \<not> message_id m = STARTING_MESSAGE_ID
           then Inr (False, ''Invalid message_id.'')
           else if \<not> target m = STARTING_TARGET
           then Inr (False, ''Invalid target.'')
           else if performative m \<notin> initial_performatives P
           then Inr (False, ''Invalid initial performative.'')
           else Inr (True, ''The message passes basic validation.''))
      | Some lm \<Rightarrow>
          (if fst (dialogue_reference m) \<noteq> fst (label_dialogue_reference (dialogue_label d))
           then Inr (False, ''Invalid dialogue_reference[0].'')
           else
             let last_message_id = message_id lm in
             if message_id m \<noteq> last_message_id + 1
             then Inr (False, ''Invalid message_id.'')
             else if target m < 1
             then Inr (False, ''Invalid target. Expected a value greater than or equal to 1.'')
             else if last_message_id < target m
             then Inr (False, ''Invalid target. Expected a value less than or equal to last.'')
             else
               (case get_message d (target m) of
                  Inl e \<Rightarrow> Inl e
                | Inr None \<Rightarrow> Inl (AttributeError ''NoneType object has no attribute performative'')
                | Inr (Some target_message) \<Rightarrow>
                    (case get_valid_replies P (performative target_message) of
                       Inl e \<Rightarrow> Inl e
                     | Inr replies \<Rightarrow>
                         if performative m \<notin> replies
                         then Inr (False, ''Invalid performative.'')
                         else Inr (True, ''The message passes basic validation.'')))))"

definition additional_validation ::
  "('p, 'c, 'r) Dialogue \<Rightarrow> ('p, 'c) Message \<Rightarrow> bool \<times> string" where
  "additional_validation d m =
     (case last_message d of
        Some lm \<Rightarrow>
          (let last_target = target lm in
           if target m \<noteq> last_target + 1
           then (False, ''Invalid target. Expected last target + 1.'')
           else (True, ''The message passes additional validation.''))
      | None \<Rightarrow> (True, ''The message passes additional validation.''))"

definition is_valid_next_message ::
  "('p, 'c, 'r) protocol \<Rightarrow> ('p, 'c, 'r) Dialogue \<Rightarrow> ('p, 'c) Message
     \<Rightarrow> error + (bool \<times> string)" where
  "is_valid_next_message P d m =
     (case basic_validation P d m of
        Inl e \<Rightarrow> Inl e
      | Inr (result_basic_validation, msg_basic_validation) \<Rightarrow>
          if \<not> result_basic_validation then Inr (False, msg_basic_validation)
          else
            (case additional_validation d m of
               (result_additional_validation, msg_additional_validation) \<Rightarrow>
                 if \<not> result_additional_validation then Inr (False, msg_additional_validation)
                 else
                   (case is_valid P d m of
                      (result_is_valid, msg_is_valid) \<Rightarrow>
                        if \<not> result_is_valid then Inr (False, msg_is_valid)
                        else Inr (True, ''Message is valid with respect to this dialogue.''))))"

text \<open>
  \<open>Dialogue.update\<close>. The dialogue is returned with the message appended; an exception
  leaves the dialogue as it was (nothing of it is assigned before the last statement).
\<close>

definition Dialogue_update ::
  "('p, 'c, 'r) protocol \<Rightarrow> ('p, 'c, 'r) Dialogue \<Rightarrow> ('p, 'c) Message
     \<Rightarrow> error + ('p, 'c, 'r) Dialogue" where
  "Dialogue_update P d m0 =
     (let m = (if \<not> has_sender m0 then m0\<lparr>sender := Some (agent_address d)\<rparr> else m0) in
      case is_belonging_to_dialogue d m of
        Inl e \<Rightarrow> Inl e
      | Inr belongs \<Rightarrow>
          if \<not> belongs
          then Inl (InvalidDialogueMessage ''message does not belong to this dialogue.'')
          else
            (case is_valid_next_message P d m of
               Inl e \<Rightarrow> Inl e
             | Inr (is_valid_result, is_valid_message) \<Rightarrow>
                 if \<not> is_valid_result then Inl (InvalidDialogueMessage is_valid_message)
                 else
                   (case Dialogue_is_message_by_self d m of
                      Inl e \<Rightarrow> Inl e
                    | Inr by_self \<Rightarrow>
                        if by_self
                        then Inr (d\<lparr>outgoing_messages := outgoing_messages d @ [m]\<rparr>)
                        else Inr (d\<lparr>incoming_messages := incoming_messages d @ [m]\<rparr>))))"

text \<open>\<open>Dialogue.reply\<close>: the reply message and the dialogue with it appended.\<close>

definition reply ::
  "('p, 'c, 'r) protocol \<Rightarrow> ('p, 'c, 'r) Dialogue \<Rightarrow> ('p, 'c) Message \<Rightarrow> 'p \<Rightarrow> 'c
     \<Rightarrow> error + (('p, 'c) Message \<times> ('p, 'c, 'r) Dialogue)" where
  "reply P d target_message perf kwargs =
     (case last_message d of
        None \<Rightarrow> Inl (AssertionError ''Cannot reply in an empty dialogue!'')
      | Some lm \<Rightarrow>
          (let r = \<lparr> dialogue_reference = label_dialogue_reference (dialogue_label d),
                     message_id = message_id lm + 1,
                     target = message_id target_message,
                     performative = perf,
                     content = kwargs,
                     sender = Some (agent_address d),
                     to = Some (dialogue_opponent_addr (dialogue_label d)) \<rparr>
           in case Dialogue_update P d r of
                Inl e \<Rightarrow> Inl e
              | Inr d' \<Rightarrow> Inr (r, d')))"

definition update_dialogue_label ::
  "('p, 'c, 'r) Dialogue \<Rightarrow> DialogueLabel \<Rightarrow> error + ('p, 'c, 'r) Dialogue" where
  "update_dialogue_label d final_dialogue_label =
     (if \<not> (snd (label_dialogue_reference (dialogue_label d)) = UNASSIGNED_DIALOGUE_REFERENCE
            \<and> snd (label_dialogue_reference final_dialogue_label) \<noteq> UNASSIGNED_DIALOGUE_REFERENCE)
      then Inl (AssertionError ''Dialogue label cannot be updated.'')
      else Inr (d\<lparr>dialogue_label := final_dialogue_label\<rparr>))"

subsection \<open>Dialogues\<close>

text \<open>
  The registry. A dictionary keyed by labels is a map on \<open>label_key\<close>. A reference to a
  dialogue object held by the registry is the key it is stored under: an update of the
  object through the reference is an update of the map at that key.
  The statistics object (\<open>DialogueStats\<close>) is written by none of the operations below
  and is left out.
\<close>

record ('p, 'c, 'r) Dialogues =
  dialogues_by_dialogue_label :: "label_key \<rightharpoonup> ('p, 'c, 'r) Dialogue"
  incomplete_to_complete_dialogue_labels :: "label_key \<rightharpoonup> DialogueLabel"
  registry_agent_address :: Address

definition Dialogues_init :: "Address \<Rightarrow> ('p, 'c, 'r) Dialogues" where
  "Dialogues_init addr =
     \<lparr> dialogues_by_dialogue_label = Map.empty,
       incomplete_to_complete_dialogue_labels = Map.empty,
       registry_agent_address = addr \<rparr>"

text \<open>The property \<open>Dialogues.agent_address\<close>, with its assertion.\<close>

definition Dialogues_agent_address :: "('p, 'c, 'r) Dialogues \<Rightarrow> error + Address" where
  "Dialogues_agent_address reg =
     (if \<not> sval (registry_agent_address reg) \<noteq> []
      then Inl (AssertionError ''agent_address is not set.'')
      else Inr (registry_agent_address reg))"

definition Dialogues_is_message_by_self ::
  "('p, 'c, 'r) Dialogues \<Rightarrow> ('p, 'c) Message \<Rightarrow> error + bool" where
  "Dialogues_is_message_by_self reg m =
     (case get_sender m of
        Inl e \<Rightarrow> Inl e
      | Inr s \<Rightarrow>
          (case Dialogues_agent_address reg of
             Inl e \<Rightarrow> Inl e
           | Inr a \<Rightarrow> Inr (sval s = sval a)))"

definition Dialogues_is_message_by_other ::
  "('p, 'c, 'r) Dialogues \<Rightarrow> ('p, 'c) Message \<Rightarrow> error + bool" where
  "Dialogues_is_message_by_other reg m =
     (case Dialogues_is_message_by_self reg m of
        Inl e \<Rightarrow> Inl e
      | Inr b \<Rightarrow> Inr (\<not> b))"

text \<open>
  \<open>_generate_dialogue_nonce\<close> returns \<open>secrets.token_hex(NONCE_BYTES_NB)\<close>: a random string
  of two hexadecimal digits for each byte. The operations below take the string drawn as
  the argument \<open>nonce\<close>; \<open>is_nonce\<close> says what such a string looks like.
\<close>

definition is_nonce :: "string \<Rightarrow> bool" where
  "is_nonce n \<longleftrightarrow> length n = 2 * NONCE_BYTES_NB \<and> set n \<subseteq> set ''0123456789abcdef''"

definition new_self_initiated_dialogue_reference :: "string \<Rightarrow> string \<times> string" where
  "new_self_initiated_dialogue_reference nonce = (nonce, UNASSIGNED_DIALOGUE_REFERENCE)"

text \<open>
  \<open>Dialogues._create\<close>. The promotion map is written before the second assertion, so the
  state returned with that assertion's failure has the new entry.
\<close>

definition private_create ::
  "('p, 'c, 'r) Dialogues \<Rightarrow> DialogueLabel \<Rightarrow> 'r \<Rightarrow> DialogueLabel option
     \<Rightarrow> (error + ('p, 'c, 'r) Dialogue) \<times> ('p, 'c, 'r) Dialogues" where
  "private_create reg incomplete_label r complete_label =
     (if \<not> label_key incomplete_label \<notin> dom (incomplete_to_complete_dialogue_labels reg)
      then (Inl (AssertionError ''Incomplete dialogue label already present.''), reg)
      else
        let (label, reg1) =
              (case complete_label of
                 None \<Rightarrow> (incomplete_label, reg)
               | Some c \<Rightarrow>
                   (c, reg\<lparr>incomplete_to_complete_dialogue_labels :=
                             (incomplete_to_complete_dialogue_labels reg)
                               (label_key incomplete_label \<mapsto> c)\<rparr>))
        in
        if \<not> label_key label \<notin> dom (dialogues_by_dialogue_label reg1)
        then (Inl (AssertionError ''Dialogue label already present in dialogues.''), reg1)
        else
          (case Dialogues_agent_address reg1 of
             Inl e \<Rightarrow> (Inl e, reg1)
           | Inr a \<Rightarrow>
               let dialogue = Dialogue_init label a r in
               (Inr dialogue,
                reg1\<lparr>dialogues_by_dialogue_label :=
                        (dialogues_by_dialogue_label reg1)(label_key label \<mapsto> dialogue)\<rparr>)))"

definition create_self_initiated ::
  "('p, 'c, 'r) Dialogues \<Rightarrow> Address \<Rightarrow> string \<times> string \<Rightarrow> 'r
     \<Rightarrow> (error + ('p, 'c, 'r) Dialogue) \<times> ('p, 'c, 'r) Dialogues" where
  "create_self_initiated reg opponent_addr reference r =
     (if \<not> (fst reference \<noteq> UNASSIGNED_DIALOGUE_REFERENCE
            \<and> snd reference = UNASSIGNED_DIALOGUE_REFERENCE)
      then (Inl (AssertionError
                   ''Cannot initiate dialogue with preassigned dialogue_responder_reference!''),
            reg)
      else
        (case Dialogues_agent_address reg of
           Inl e \<Rightarrow> (Inl e, reg)
         | Inr a \<Rightarrow>
             private_create reg
               \<lparr> label_dialogue_reference = reference,
                 dialogue_opponent_addr = opponent_addr,
                 dialogue_starter_addr = a \<rparr>
               r None))"

definition create_opponent_initiated ::
  "('p, 'c, 'r) Dialogues \<Rightarrow> string \<Rightarrow> Address \<Rightarrow> string \<times> string \<Rightarrow> 'r
     \<Rightarrow> (error + ('p, 'c, 'r) Dialogue) \<times> ('p, 'c, 'r) Dialogues" where
  "create_opponent_initiated reg nonce opponent_addr reference r =
     (if \<not> (fst reference \<noteq> UNASSIGNED_DIALOGUE_REFERENCE
            \<and> snd reference = UNASSIGNED_DIALOGUE_REFERENCE)
      then (Inl (AssertionError
                   ''Cannot initiate dialogue with preassigned dialogue_responder_reference!''),
            reg)
      else
        let incomplete_label =
              \<lparr> label_dialogue_reference = reference,
                dialogue_opponent_addr = opponent_addr,
                dialogue_starter_addr = opponent_addr \<rparr>;
            new_dialogue_reference = (fst reference, nonce);
            complete_label =
              \<lparr> label_dialogue_reference = new_dialogue_reference,
                dialogue_opponent_addr = opponent_addr,
                dialogue_starter_addr = opponent_addr \<rparr>
        in private_create reg incomplete_label r (Some complete_label))"

text \<open>
  \<open>Dialogues.create\<close>. The result is the exception or the pair (message, dialogue), and
  the registry as the call leaves it.
\<close>

definition Dialogues_create ::
  "('p, 'c, 'r) protocol \<Rightarrow> ('p, 'c, 'r) Dialogues \<Rightarrow> string \<Rightarrow> Address \<Rightarrow> 'p \<Rightarrow> 'c
     \<Rightarrow> (error + (('p, 'c) Message \<times> ('p, 'c, 'r) Dialogue)) \<times> ('p, 'c, 'r) Dialogues" where
  "Dialogues_create P reg nonce counterparty perf kwargs =
     (case Dialogues_agent_address reg of
        Inl e \<Rightarrow> (Inl e, reg)
      | Inr a \<Rightarrow>
          let initial_message =
                \<lparr> dialogue_reference = new_self_initiated_dialogue_reference nonce,
                  message_id = STARTING_MESSAGE_ID,
                  target = STARTING_TARGET,
                  performative = perf,
                  content = kwargs,
                  sender = Some a,
                  to = Some counterparty \<rparr>
          in
          (case create_self_initiated reg counterparty (dialogue_reference initial_message)
                  (role_from_first_message P initial_message) of
             (Inl e, reg1) \<Rightarrow> (Inl e, reg1)
           | (Inr dialogue, reg1) \<Rightarrow>
               (case Dialogue_update P dialogue initial_message of
                  Inl (InvalidDialogueMessage e) \<Rightarrow>
                    (if label_key (dialogue_label dialogue)
                          \<in> dom (dialogues_by_dialogue_label reg1)
                     then
                       (Inl (SyntaxError
                          ''Cannot create a dialogue with the specified performative and contents.''),
                        reg1\<lparr>dialogues_by_dialogue_label :=
                                (dialogues_by_dialogue_label reg1)
                                  (label_key (dialogue_label dialogue) := None)\<rparr>)
                     else (Inl (KeyError ''pop''), reg1))
                | Inl e \<Rightarrow> (Inl e, reg1)
                | Inr dialogue' \<Rightarrow>
                    (Inr (initial_message, dialogue'),
                     reg1\<lparr>dialogues_by_dialogue_label :=
                             (dialogues_by_dialogue_label reg1)
                               (label_key (dialogue_label dialogue) \<mapsto> dialogue')\<rparr>))))"

text \<open>
  \<open>Dialogues._complete_dialogue_reference\<close>. The dialogue is popped before its label is
  updated, so a failure of \<open>update_dialogue_label\<close> returns the registry without it.
\<close>

definition complete_dialogue_reference ::
  "('p, 'c, 'r) Dialogues \<Rightarrow> ('p, 'c) Message \<Rightarrow> (error + unit) \<times> ('p, 'c, 'r) Dialogues" where
  "complete_dialogue_reference reg m =
     (let complete_dialogue_reference = dialogue_reference m in
      if \<not> (fst complete_dialogue_reference \<noteq> UNASSIGNED_DIALOGUE_REFERENCE
            \<and> snd complete_dialogue_reference \<noteq> UNASSIGNED_DIALOGUE_REFERENCE)
      then (Inl (AssertionError ''Only complete dialogue references allowed.''), reg)
      else
        (case get_sender m of
           Inl e \<Rightarrow> (Inl e, reg)
         | Inr s \<Rightarrow>
             (case Dialogues_agent_address reg of
                Inl e \<Rightarrow> (Inl e, reg)
              | Inr a \<Rightarrow>
                  let incomplete_label =
                        \<lparr> label_dialogue_reference =
                            (fst complete_dialogue_reference, UNASSIGNED_DIALOGUE_REFERENCE),
                          dialogue_opponent_addr = s,
                          dialogue_starter_addr = a \<rparr>
                  in
                  (case dialogues_by_dialogue_label reg (label_key incomplete_label) of
                     Some dialogue \<Rightarrow>
                       if label_key incomplete_label
                            \<notin> dom (incomplete_to_complete_dialogue_labels reg)
                       then
                         let reg1 = reg\<lparr>dialogues_by_dialogue_label :=
                                          (dialogues_by_dialogue_label reg)
                                            (label_key incomplete_label := None)\<rparr>;
                             final_dialogue_label =
                               \<lparr> label_dialogue_reference = complete_dialogue_reference,
                                 dialogue_opponent_addr = dialogue_opponent_addr incomplete_label,
                                 dialogue_starter_addr = dialogue_starter_addr incomplete_label \<rparr>
                         in
                         (case update_dialogue_label dialogue final_dialogue_label of
                            Inl e \<Rightarrow> (Inl e, reg1)
                          | Inr dialogue' \<Rightarrow>
                              (Inr (),
                               reg1\<lparr>dialogues_by_dialogue_label :=
                                       (dialogues_by_dialogue_label reg1)
                                         (label_key (dialogue_label dialogue') \<mapsto> dialogue'),
                                     incomplete_to_complete_dialogue_labels :=
                                       (incomplete_to_complete_dialogue_labels reg1)
                                         (label_key incomplete_label \<mapsto> final_dialogue_label)\<rparr>))
                       else (Inr (), reg)
                   | None \<Rightarrow> (Inr (), reg)))))"

definition get_latest_label :: "('p, 'c, 'r) Dialogues \<Rightarrow> DialogueLabel \<Rightarrow> DialogueLabel" where
  "get_latest_label reg label =
     (case incomplete_to_complete_dialogue_labels reg (label_key label) of
        None \<Rightarrow> label
      | Some l \<Rightarrow> l)"

definition get_dialogue_from_label ::
  "('p, 'c, 'r) Dialogues \<Rightarrow> DialogueLabel \<Rightarrow> ('p, 'c, 'r) Dialogue option" where
  "get_dialogue_from_label reg label = dialogues_by_dialogue_label reg (label_key label)"

text \<open>
  \<open>Dialogues.get_dialogue\<close>, returning the reference to the dialogue found (its key) with
  the dialogue. The second candidate label is built from \<open>opponent\<close> and \<open>message.to\<close>.
\<close>

definition get_dialogue_ref ::
  "('p, 'c, 'r) Dialogues \<Rightarrow> ('p, 'c) Message
     \<Rightarrow> error + (label_key \<times> ('p, 'c, 'r) Dialogue) option" where
  "get_dialogue_ref reg m =
     (case Dialogues_is_message_by_self reg m of
        Inl e \<Rightarrow> Inl e
      | Inr by_self \<Rightarrow>
          (case (if by_self then get_to m else get_sender m) of
             Inl e \<Rightarrow> Inl e
           | Inr opponent \<Rightarrow>
               (case Dialogues_agent_address reg of
                  Inl e \<Rightarrow> Inl e
                | Inr a \<Rightarrow>
                    (case get_to m of
                       Inl e \<Rightarrow> Inl e
                     | Inr t \<Rightarrow>
                         let self_initiated_dialogue_label =
                               get_latest_label reg
                                 \<lparr> label_dialogue_reference = dialogue_reference m,
                                   dialogue_opponent_addr = opponent,
                                   dialogue_starter_addr = a \<rparr>;
                             other_initiated_dialogue_label =
                               get_latest_label reg
                                 \<lparr> label_dialogue_reference = dialogue_reference m,
                                   dialogue_opponent_addr = opponent,
                                   dialogue_starter_addr = t \<rparr>
                         in
                         (case get_dialogue_from_label reg self_initiated_dialogue_label of
                            Some d \<Rightarrow> Inr (Some (label_key self_initiated_dialogue_label, d))
                          | None \<Rightarrow>
                              (case get_dialogue_from_label reg other_initiated_dialogue_label of
                                 Some d \<Rightarrow>
                                   Inr (Some (label_key other_initiated_dialogue_label, d))
                               | None \<Rightarrow> Inr None))))))"

definition get_dialogue ::
  "('p, 'c, 'r) Dialogues \<Rightarrow> ('p, 'c) Message \<Rightarrow> error + ('p, 'c, 'r) Dialogue option" where
  "get_dialogue reg m =
     (case get_dialogue_ref reg m of
        Inl e \<Rightarrow> Inl e
      | Inr r \<Rightarrow> Inr (map_option snd r))"

text \<open>
  \<open>Dialogues.update\<close>. The first component of the result is the exception raised or the
  value returned (\<open>None\<close> or the dialogue); the second is the registry as the call leaves it.
\<close>

definition Dialogues_update ::
  "('p, 'c, 'r) protocol \<Rightarrow> ('p, 'c, 'r) Dialogues \<Rightarrow> string \<Rightarrow> ('p, 'c) Message
     \<Rightarrow> (error + ('p, 'c, 'r) Dialogue option) \<times> ('p, 'c, 'r) Dialogues" where
  "Dialogues_update P reg nonce m =
     (case Dialogues_is_message_by_other reg m of
        Inl e \<Rightarrow> (Inl e, reg)
      | Inr by_other \<Rightarrow>
          if \<not> by_other
          then (Inl (AssertionError
                  ''Invalid update usage. Update must only be used with a message by another agent.''),
                reg)
          else if \<not> has_to m
          then (Inl (AssertionError ''The message's to field is not set''), reg)
          else
            let reference = dialogue_reference m;
                is_invalid_label =
                  (fst reference = UNASSIGNED_DIALOGUE_REFERENCE
                   \<and> snd reference = UNASSIGNED_DIALOGUE_REFERENCE);
                is_new_dialogue =
                  (fst reference \<noteq> UNASSIGNED_DIALOGUE_REFERENCE
                   \<and> snd reference = UNASSIGNED_DIALOGUE_REFERENCE
                   \<and> message_id m = 1);
                (found, reg1) =
                  (if is_invalid_label then (Inr None, reg)
                   else if is_new_dialogue then
                     (case get_sender m of
                        Inl e \<Rightarrow> (Inl e, reg)
                      | Inr s \<Rightarrow>
                          (case create_opponent_initiated reg nonce s reference
                                  (role_from_first_message P m) of
                             (Inl e, reg') \<Rightarrow> (Inl e, reg')
                           | (Inr d, reg') \<Rightarrow> (Inr (Some (label_key (dialogue_label d), d)), reg')))
                   else
                     (case complete_dialogue_reference reg m of
                        (Inl e, reg') \<Rightarrow> (Inl e, reg')
                      | (Inr u, reg') \<Rightarrow> (get_dialogue_ref reg' m, reg')))
            in
            (case found of
               Inl e \<Rightarrow> (Inl e, reg1)
             | Inr None \<Rightarrow> (Inr None, reg1)
             | Inr (Some (k, dialogue)) \<Rightarrow>
                 (case Dialogue_update P dialogue m of
                    Inl (InvalidDialogueMessage e) \<Rightarrow> (Inr None, reg1)
                  | Inl e \<Rightarrow> (Inl e, reg1)
                  | Inr dialogue' \<Rightarrow>
                      (Inr (Some dialogue'),
                       reg1\<lparr>dialogues_by_dialogue_label :=
                               (dialogues_by_dialogue_label reg1)(k \<mapsto> dialogue')\<rparr>))))"

subsection \<open>Histories\<close>

text \<open>
  The merged chronological log of a dialogue: its outgoing and incoming messages, merged
  by message id.
\<close>

definition merged_log :: "('p, 'c, 'r) Dialogue \<Rightarrow> ('p, 'c) Message list" where
  "merged_log d = sort_key message_id (outgoing_messages d @ incoming_messages d)"

text \<open>
  The dialogues that calls of \<open>Dialogue.update\<close> and \<open>Dialogue.reply\<close> (and the registry's
  \<open>update_dialogue_label\<close>) can produce from a new dialogue.
\<close>

inductive dialogue_reachable ::
  "('p, 'c, 'r) protocol \<Rightarrow> ('p, 'c, 'r) Dialogue \<Rightarrow> bool"
  for P :: "('p, 'c, 'r) protocol" where
  dr_init: "dialogue_reachable P (Dialogue_init label addr r)"
| dr_update:
    "dialogue_reachable P d \<Longrightarrow> Dialogue_update P d m = Inr d' \<Longrightarrow> dialogue_reachable P d'"
| dr_reply:
    "dialogue_reachable P d \<Longrightarrow> reply P d target_message perf kwargs = Inr (rm, d')
       \<Longrightarrow> dialogue_reachable P d'"
| dr_label:
    "dialogue_reachable P d \<Longrightarrow> update_dialogue_label d final = Inr d'
       \<Longrightarrow> dialogue_reachable P d'"

text \<open>
  The registries of the agent with address \<open>a\<close> that calls of \<open>Dialogues.create\<close> and
  \<open>Dialogues.update\<close> produce (whether the call returns or raises), together with calls
  of \<open>reply\<close> and \<open>update\<close> on a dialogue the registry holds.
\<close>

inductive registry_reachable ::
  "('p, 'c, 'r) protocol \<Rightarrow> Address \<Rightarrow> ('p, 'c, 'r) Dialogues \<Rightarrow> bool"
  for P :: "('p, 'c, 'r) protocol" and a :: Address where
  rr_init: "registry_reachable P a (Dialogues_init a)"
| rr_create:
    "registry_reachable P a reg \<Longrightarrow> is_nonce nonce
       \<Longrightarrow> registry_reachable P a (snd (Dialogues_create P reg nonce counterparty perf kwargs))"
| rr_update:
    "registry_reachable P a reg \<Longrightarrow> is_nonce nonce
       \<Longrightarrow> registry_reachable P a (snd (Dialogues_update P reg nonce m))"
| rr_reply:
    "registry_reachable P a reg \<Longrightarrow> dialogues_by_dialogue_label reg k = Some d
       \<Longrightarrow> reply P d target_message perf kwargs = Inr (rm, d')
       \<Longrightarrow> registry_reachable P a
             (reg\<lparr>dialogues_by_dialogue_label := (dialogues_by_dialogue_label reg)(k \<mapsto> d')\<rparr>)"
| rr_dialogue_update:
    "registry_reachable P a reg \<Longrightarrow> dialogues_by_dialogue_label reg k = Some d
       \<Longrightarrow> Dialogue_update P d m = Inr d'
       \<Longrightarrow> registry_reachable P a
             (reg\<lparr>dialogues_by_dialogue_label := (dialogues_by_dialogue_label reg)(k \<mapsto> d')\<rparr>)"

subsection \<open>A concrete protocol (tests/data/generator/t_protocol_no_ct/dialogues.py)\<close>

datatype Performative =
    PERFORMATIVE_EMPTY_CONTENTS
  | PERFORMATIVE_MT
  | PERFORMATIVE_O
  | PERFORMATIVE_PCT
  | PERFORMATIVE_PMT
  | PERFORMATIVE_PT

datatype Role = ROLE_1 | ROLE_2

definition INITIAL_PERFORMATIVES :: "Performative set" where
  "INITIAL_PERFORMATIVES = {PERFORMATIVE_PT}"

definition VALID_REPLIES :: "Performative \<rightharpoonup> Performative set" where
  "VALID_REPLIES =
     [ PERFORMATIVE_EMPTY_CONTENTS \<mapsto> {PERFORMATIVE_EMPTY_CONTENTS},
       PERFORMATIVE_MT \<mapsto> {},
       PERFORMATIVE_O \<mapsto> {},
       PERFORMATIVE_PCT \<mapsto> {PERFORMATIVE_MT, PERFORMATIVE_O},
       PERFORMATIVE_PMT \<mapsto> {PERFORMATIVE_MT, PERFORMATIVE_O},
       PERFORMATIVE_PT \<mapsto> {PERFORMATIVE_PT, PERFORMATIVE_PCT, PERFORMATIVE_PMT} ]"

text \<open>
  The test protocol, with a hook \<open>is_valid\<close> that accepts every message and a role
  function that gives the first role.
\<close>

definition t_protocol :: "(Performative, unit, Role) protocol" where
  "t_protocol =
     \<lparr> initial_performatives = INITIAL_PERFORMATIVES,
       valid_replies = VALID_REPLIES,
       is_valid = (\<lambda>d m. (True, ''The message is valid.'')),
       role_from_first_message = (\<lambda>m. ROLE_1) \<rparr>"

text \<open>Three agents and two nonces for the scenarios.\<close>

definition alice :: Address where
  "alice = PyStr ''alice'' 0"

definition bob :: Address where
  "bob = PyStr ''bob'' 1"

definition carol :: Address where
  "carol = PyStr ''carol'' 2"

definition nonce_a :: string where
  "nonce_a = replicate 64 (CHR ''a'')"

definition nonce_b :: string where
  "nonce_b = replicate 64 (CHR ''b'')"

text \<open>A message of the test protocol with its sender and receiver set.\<close>

definition t_message ::
  "string \<times> string \<Rightarrow> int \<Rightarrow> int \<Rightarrow> Performative \<Rightarrow> Address \<Rightarrow> Address
     \<Rightarrow> (Performative, unit) Message" where
  "t_message reference mid tgt perf from_addr to_addr =
     \<lparr> dialogue_reference = reference,
       message_id = mid,
       target = tgt,
       performative = perf,
       content = (),
       sender = Some from_addr,
       to = Some to_addr \<rparr>"

subsection \<open>Notions used in the statements and proofs\<close>

text \<open>
  The message as \<open>Dialogue.update\<close> stores it: with the agent's address as sender when the
  caller left the sender unset.
\<close>

definition with_sender :: "('p, 'c, 'r) Dialogue \<Rightarrow> ('p, 'c) Message \<Rightarrow> ('p, 'c) Message" where
  "with_sender d m = (if \<not> has_sender m then m\<lparr>sender := Some (agent_address d)\<rparr> else m)"


text \<open>
  The invariant of a dialogue's logs: with \<open>n\<close> messages in both logs together, the ids
  are distinct and lie in \<open>1..n\<close>, every target is the id minus one, and
  \<open>last_message\<close> is the message with id \<open>n\<close>.
\<close>

definition log_inv :: "('p, 'c, 'r) Dialogue \<Rightarrow> bool" where
  "log_inv d \<longleftrightarrow>
     (\<forall>m \<in> set (outgoing_messages d @ incoming_messages d).
        1 \<le> message_id m
        \<and> message_id m \<le> int (length (outgoing_messages d @ incoming_messages d))
        \<and> target m = message_id m - 1)
     \<and> distinct (map message_id (outgoing_messages d @ incoming_messages d))
     \<and> (case last_message d of
          None \<Rightarrow> outgoing_messages d @ incoming_messages d = []
        | Some lm \<Rightarrow> message_id lm = int (length (outgoing_messages d @ incoming_messages d)))"


text \<open>The dialogue and the messages of an opponent-initiated exchange (carol writes to alice).\<close>

definition carol_label :: DialogueLabel where
  "carol_label =
     \<lparr> label_dialogue_reference = (nonce_a, nonce_b),
       dialogue_opponent_addr = carol,
       dialogue_starter_addr = carol \<rparr>"

definition carol_dialogue0 :: "(Performative, unit, Role) Dialogue" where
  "carol_dialogue0 = Dialogue_init carol_label alice ROLE_1"

definition carol_message1 :: "(Performative, unit) Message" where
  "carol_message1 = t_message (nonce_a, []) 1 0 PERFORMATIVE_PT carol alice"

definition carol_message2 :: "(Performative, unit) Message" where
  "carol_message2 = t_message (nonce_a, nonce_b) 2 1 PERFORMATIVE_PCT carol alice"

definition carol_dialogue1 :: "(Performative, unit, Role) Dialogue" where
  "carol_dialogue1 = carol_dialogue0\<lparr>incoming_messages := [carol_message1]\<rparr>"

definition carol_dialogue2 :: "(Performative, unit, Role) Dialogue" where
  "carol_dialogue2 = carol_dialogue0\<lparr>incoming_messages := [carol_message1, carol_message2]\<rparr>"

text \<open>
  The invariant of the registry's two maps, for the agent with address \<open>a\<close>: an entry
  \<open>k \<mapsto> C\<close> of the promotion map has a key that is no key of the dialogue map and has an
  empty responder reference, and a complete label \<open>C\<close> that is a key of the dialogue map,
  with \<open>k\<close> its incomplete form; a key of the dialogue map with an empty responder
  reference has the agent as starter; and the agent's address is set once a map has an
  entry.
\<close>

definition maps_inv ::
  "Address \<Rightarrow> (label_key \<rightharpoonup> ('p, 'c, 'r) Dialogue) \<Rightarrow> (label_key \<rightharpoonup> DialogueLabel) \<Rightarrow> bool" where
  "maps_inv a B I \<longleftrightarrow>
     (\<forall>k C. I k = Some C \<longrightarrow>
        k \<notin> dom B \<and> snd (fst k) = []
        \<and> label_key C \<in> dom B
        \<and> fst (label_dialogue_reference C) \<noteq> []
        \<and> snd (label_dialogue_reference C) \<noteq> []
        \<and> k = label_key (get_incomplete_version C))
     \<and> (\<forall>k. k \<in> dom B \<and> snd (fst k) = [] \<longrightarrow> snd (snd k) = sval a)
     \<and> ((B = Map.empty \<and> I = Map.empty) \<or> sval a \<noteq> [])"

definition registry_inv :: "Address \<Rightarrow> ('p, 'c, 'r) Dialogues \<Rightarrow> bool" where
  "registry_inv a reg \<longleftrightarrow>
     registry_agent_address reg = a
     \<and> maps_inv a (dialogues_by_dialogue_label reg) (incomplete_to_complete_dialogue_labels reg)"

text \<open>The initial message that \<open>Dialogues.create\<close> constructs.\<close>

definition initial_message :: "Address \<Rightarrow> string \<Rightarrow> Address \<Rightarrow> 'p \<Rightarrow> 'c \<Rightarrow> ('p, 'c) Message" where
  "initial_message a nonce cp perf kwargs =
     \<lparr> dialogue_reference = (nonce, []),
       message_id = 1,
       target = 0,
       performative = perf,
       content = kwargs,
       sender = Some a,
       to = Some cp \<rparr>"

text \<open>The registry of alice, new, and after carol's first message.\<close>

definition alice_registry0 :: "(Performative, unit, Role) Dialogues" where
  "alice_registry0 = Dialogues_init alice"

definition carol_registry1 :: "(Performative, unit, Role) Dialogues" where
  "carol_registry1 =
     \<lparr> dialogues_by_dialogue_label = [label_key carol_label \<mapsto> carol_dialogue1],
       incomplete_to_complete_dialogue_labels =
         [label_key (get_incomplete_version carol_label) \<mapsto> carol_label],
       registry_agent_address = alice \<rparr>"

text \<open>
  A self-initiated exchange: alice creates a dialogue with bob, bob answers with a
  complete reference, and writes again. And a label with two equal address strings held
  in two objects.
\<close>

definition bob_bob_label :: DialogueLabel where
  "bob_bob_label =
     \<lparr> label_dialogue_reference = (''r'', []),
       dialogue_opponent_addr = PyStr ''bob'' 1,
       dialogue_starter_addr = PyStr ''bob'' 2 \<rparr>"

definition bob_label :: DialogueLabel where
  "bob_label =
     \<lparr> label_dialogue_reference = (nonce_a, []),
       dialogue_opponent_addr = bob,
       dialogue_starter_addr = alice \<rparr>"

definition bob_message1 :: "(Performative, unit) Message" where
  "bob_message1 = initial_message alice nonce_a bob PERFORMATIVE_PT ()"

definition bob_dialogue1 :: "(Performative, unit, Role) Dialogue" where
  "bob_dialogue1 = (Dialogue_init bob_label alice ROLE_1)\<lparr>outgoing_messages := [bob_message1]\<rparr>"

definition bob_registry1 :: "(Performative, unit, Role) Dialogues" where
  "bob_registry1 =
     \<lparr> dialogues_by_dialogue_label = [label_key bob_label \<mapsto> bob_dialogue1],
       incomplete_to_complete_dialogue_labels = Map.empty,
       registry_agent_address = alice \<rparr>"

definition bob_final_label :: DialogueLabel where
  "bob_final_label =
     \<lparr> label_dialogue_reference = (nonce_a, nonce_b),
       dialogue_opponent_addr = bob,
       dialogue_starter_addr = alice \<rparr>"

definition bob_message2 :: "(Performative, unit) Message" where
  "bob_message2 = t_message (nonce_a, nonce_b) 2 1 PERFORMATIVE_PCT bob alice"

definition bob_message3 :: "(Performative, unit) Message" where
  "bob_message3 = t_message (nonce_a, nonce_b) 3 2 PERFORMATIVE_MT bob alice"

definition bob_dialogue2 :: "(Performative, unit, Role) Dialogue" where
  "bob_dialogue2 =
     bob_dialogue1\<lparr>dialogue_label := bob_final_label, incoming_messages := [bob_message2]\<rparr>"

definition bob_registry2 :: "(Performative, unit, Role) Dialogues" where
  "bob_registry2 =
     \<lparr> dialogues_by_dialogue_label = [label_key bob_final_label \<mapsto> bob_dialogue2],
       incomplete_to_complete_dialogue_labels = [label_key bob_label \<mapsto> bob_final_label],
       registry_agent_address = alice \<rparr>"

definition carol_message_bad :: "(Performative, unit) Message" where
  "carol_message_bad = t_message (nonce_a, []) 2 1 PERFORMATIVE_PT carol alice"

text \<open>Every dialogue the registry holds was made for the registry's agent.\<close>

definition dialogues_owned :: "Address \<Rightarrow> ('p, 'c, 'r) Dialogues \<Rightarrow> bool" where
  "dialogues_owned a reg \<longleftrightarrow>
     registry_agent_address reg = a
     \<and> (\<forall>k d. dialogues_by_dialogue_label reg k = Some d \<longrightarrow> agent_address d = a)"

text \<open>
  The registry routes the inbound message \<open>m\<close> to the dialogue stored under the label
  \<open>C\<close>: \<open>get_dialogue\<close> finds that dialogue, \<open>Dialogues.update\<close> hands the message to its
  \<open>update\<close> and returns what that gives (\<open>None\<close> when it raises
  \<open>InvalidDialogueMessage\<close>, else the dialogue, stored again under \<open>C\<close>), and an
  accepted message is appended to the dialogue's incoming messages.
\<close>

definition routes_to ::
  "('p, 'c, 'r) protocol \<Rightarrow> ('p, 'c, 'r) Dialogues \<Rightarrow> string \<Rightarrow> ('p, 'c) Message
     \<Rightarrow> DialogueLabel \<Rightarrow> bool" where
  "routes_to P reg nonce m C \<longleftrightarrow>
     (\<exists>d. dialogues_by_dialogue_label reg (label_key C) = Some d
        \<and> get_dialogue reg m = Inr (Some d)
        \<and> Dialogues_update P reg nonce m =
            (case Dialogue_update P d m of
               Inl (InvalidDialogueMessage e) \<Rightarrow> (Inr None, reg)
             | Inl e \<Rightarrow> (Inl e, reg)
             | Inr d' \<Rightarrow>
                 (Inr (Some d'),
                  reg\<lparr>dialogues_by_dialogue_label :=
                        (dialogues_by_dialogue_label reg)(label_key C \<mapsto> d')\<rparr>))
        \<and> (\<forall>d'. Dialogue_update P d m = Inr d' \<longrightarrow>
              d' = d\<lparr>incoming_messages := incoming_messages d @ [m]\<rparr>))"

text \<open>The dialogue of alice and bob after bob's second message.\<close>

definition bob_dialogue3 :: "(Performative, unit, Role) Dialogue" where
  "bob_dialogue3 = bob_dialogue2\<lparr>incoming_messages := [bob_message2, bob_message3]\<rparr>"

section \<open>Properties\<close>

subsection \<open>Labels\<close>

lemma split_py_no_sep: "c \<notin> set xs \<Longrightarrow> split_py c xs = [xs]"
  by (induction xs) auto

lemma split_py_append:
  "c \<notin> set xs \<Longrightarrow> split_py c (xs @ c # ys) = xs # split_py c ys"
  by (induction xs) auto

text \<open>
  C8. Label string round-trip: for a label whose four components contain no underscore,
  \<open>from_str\<close> of its string form \<open>starter_ref_responder_ref_opponent_starter\<close> returns
  (raises nothing) a label equal to it under \<open>__eq__\<close>.
\<close>

theorem from_str_label_str:
  assumes "CHR ''_'' \<notin> set (dialogue_starter_reference L)"
    and "CHR ''_'' \<notin> set (dialogue_responder_reference L)"
    and "CHR ''_'' \<notin> set (sval (dialogue_opponent_addr L))"
    and "CHR ''_'' \<notin> set (sval (dialogue_starter_addr L))"
  shows "label_str L =
           dialogue_starter_reference L @ ''_'' @ dialogue_responder_reference L @ ''_''
           @ sval (dialogue_opponent_addr L) @ ''_'' @ sval (dialogue_starter_addr L)
       \<and> (case from_str i j (label_str L) of
             Inl e \<Rightarrow> False
           | Inr L' \<Rightarrow> label_eq L' L)"
  using assms
  by (simp add: from_str_def label_str_def split_py_append split_py_no_sep label_eq_def
      dialogue_starter_reference_def dialogue_responder_reference_def)

theorem from_str_label_str_witness:
  "CHR ''_'' \<notin> set (dialogue_starter_reference carol_label)
   \<and> CHR ''_'' \<notin> set (dialogue_responder_reference carol_label)
   \<and> CHR ''_'' \<notin> set (sval (dialogue_opponent_addr carol_label))
   \<and> CHR ''_'' \<notin> set (sval (dialogue_starter_addr carol_label))
   \<and> (case from_str 7 8 (label_str carol_label) of
         Inl e \<Rightarrow> False
       | Inr L' \<Rightarrow> label_eq L' carol_label)"
proof -
  have h: "CHR ''_'' \<notin> set (dialogue_starter_reference carol_label)"
    "CHR ''_'' \<notin> set (dialogue_responder_reference carol_label)"
    "CHR ''_'' \<notin> set (sval (dialogue_opponent_addr carol_label))"
    "CHR ''_'' \<notin> set (sval (dialogue_starter_addr carol_label))"
    by (simp_all add: carol_label_def dialogue_starter_reference_def
        dialogue_responder_reference_def nonce_a_def nonce_b_def carol_def)
  from from_str_label_str [OF h, of 7 8] h show ?thesis by blast
qed

text \<open>
  C9. The flag \<open>is_self_initiated\<close> is meant to say that the label's starter address and
  opponent address differ. Here the code is evaluated on the label that
  \<open>from_str\<close> reads from \<open>r__bob_bob\<close>: both addresses are the string \<open>bob\<close>, held in two
  \<open>str\<close> objects, and the flag is set.
\<close>

theorem is_self_initiated_of_equal_addresses:
  "from_str 1 2 ''r__bob_bob'' = Inr bob_bob_label
   \<and> sval (dialogue_starter_addr bob_bob_label) = sval (dialogue_opponent_addr bob_bob_label)
   \<and> is_self_initiated
         (Dialogue_init bob_bob_label alice ROLE_1 :: (Performative, unit, Role) Dialogue)"
  by (simp add: from_str_def Dialogue_init_def bob_bob_label_def)

subsection \<open>One dialogue\<close>

lemma with_sender_fields [simp]:
  "message_id (with_sender d m) = message_id m"
  "target (with_sender d m) = target m"
  "performative (with_sender d m) = performative m"
  "dialogue_reference (with_sender d m) = dialogue_reference m"
  by (simp_all add: with_sender_def)

lemma Dialogue_update_accepted:
  assumes "Dialogue_update P d m = Inr d'"
  shows "\<exists>t. basic_validation P d (with_sender d m) = Inr (True, t)"
    and "fst (additional_validation d (with_sender d m))"
    and "fst (is_valid P d (with_sender d m))"
    and "is_belonging_to_dialogue d (with_sender d m) = Inr True"
    and "d' = d\<lparr>outgoing_messages := outgoing_messages d @ [with_sender d m]\<rparr>
         \<or> d' = d\<lparr>incoming_messages := incoming_messages d @ [with_sender d m]\<rparr>"
  using assms
  unfolding Dialogue_update_def is_valid_next_message_def with_sender_def [symmetric] Let_def
  by (auto split: sum.splits if_splits prod.splits bool.splits)

lemma basic_validation_initial:
  assumes "basic_validation P d m = Inr (True, t)" and "last_message d = None"
  shows "performative m \<in> initial_performatives P \<and> message_id m = 1 \<and> target m = 0"
  using assms
  by (auto simp: basic_validation_def STARTING_MESSAGE_ID_def STARTING_TARGET_def split: if_splits)

lemma basic_validation_next:
  assumes "basic_validation P d m = Inr (True, t)" and "last_message d = Some lm"
  shows "fst (dialogue_reference m) = fst (label_dialogue_reference (dialogue_label d))
     \<and> message_id m = message_id lm + 1 \<and> 1 \<le> target m \<and> target m \<le> message_id lm
     \<and> (\<exists>tm S. get_message d (target m) = Inr (Some tm)
           \<and> valid_replies P (performative tm) = Some S \<and> performative m \<in> S)"
  using assms
  by (auto simp: basic_validation_def Let_def get_valid_replies_def
      split: if_splits sum.splits option.splits)

lemma find_Some_member: "find Q xs = Some x \<Longrightarrow> x \<in> set xs \<and> Q x"
  by (induction xs) (auto split: if_splits)

lemma get_message_found:
  assumes "get_message d i = Inr (Some tm)"
  shows "tm \<in> set (outgoing_messages d @ incoming_messages d) \<and> message_id tm = i"
proof -
  from assms have "find (\<lambda>m. message_id m = i) (outgoing_messages d @ incoming_messages d) = Some tm"
    by (simp add: get_message_def Let_def split: if_splits)
  from find_Some_member [OF this] show ?thesis .
qed


lemma last_message_member:
  "last_message d = Some lm \<Longrightarrow> lm \<in> set (outgoing_messages d @ incoming_messages d)"
  by (auto simp: last_message_def last_incoming_message_def last_outgoing_message_def
      split: if_splits)

lemma last_message_None:
  "last_message d = None \<longleftrightarrow> outgoing_messages d = [] \<and> incoming_messages d = []"
  by (auto simp: last_message_def last_incoming_message_def last_outgoing_message_def
      split: if_splits)

lemma last_message_append_out:
  assumes "\<forall>x \<in> set (incoming_messages d). message_id x < message_id m"
  shows "last_message (d\<lparr>outgoing_messages := outgoing_messages d @ [m]\<rparr>) = Some m"
proof (cases "incoming_messages d = []")
  case True
  then show ?thesis
    by (simp add: last_message_def last_incoming_message_def last_outgoing_message_def)
next
  case False
  then have "last (incoming_messages d) \<in> set (incoming_messages d)" by simp
  with assms have "message_id (last (incoming_messages d)) < message_id m" by blast
  with False show ?thesis
    by (simp add: last_message_def last_incoming_message_def last_outgoing_message_def)
qed

lemma last_message_append_in:
  assumes "\<forall>x \<in> set (outgoing_messages d). message_id x < message_id m"
  shows "last_message (d\<lparr>incoming_messages := incoming_messages d @ [m]\<rparr>) = Some m"
proof (cases "outgoing_messages d = []")
  case True
  then show ?thesis
    by (simp add: last_message_def last_incoming_message_def last_outgoing_message_def)
next
  case False
  then have "last (outgoing_messages d) \<in> set (outgoing_messages d)" by simp
  with assms have "message_id (last (outgoing_messages d)) < message_id m" by blast
  with False show ?thesis
    by (simp add: last_message_def last_incoming_message_def last_outgoing_message_def)
qed

lemma distinct_insert_mid:
  "distinct (xs @ ys) \<Longrightarrow> a \<notin> set (xs @ ys) \<Longrightarrow> distinct (xs @ [a] @ ys)"
  by auto

lemma log_inv_intro:
  assumes "\<And>x. x \<in> set (outgoing_messages d @ incoming_messages d) \<Longrightarrow>
             1 \<le> message_id x
             \<and> message_id x \<le> int (length (outgoing_messages d @ incoming_messages d))
             \<and> target x = message_id x - 1"
    and "distinct (map message_id (outgoing_messages d @ incoming_messages d))"
    and "last_message d = Some lm"
    and "message_id lm = int (length (outgoing_messages d @ incoming_messages d))"
  shows "log_inv d"
  unfolding log_inv_def using assms by simp

lemma log_inv_append:
  assumes inv: "log_inv d"
    and id: "message_id m = int (length (outgoing_messages d @ incoming_messages d)) + 1"
    and tg: "target m = message_id m - 1"
    and d': "d' = d\<lparr>outgoing_messages := outgoing_messages d @ [m]\<rparr>
         \<or> d' = d\<lparr>incoming_messages := incoming_messages d @ [m]\<rparr>"
  shows "log_inv d'"
proof -
  let ?all = "outgoing_messages d @ incoming_messages d"
  let ?all' = "outgoing_messages d' @ incoming_messages d'"
  from inv have old: "\<And>x. x \<in> set ?all \<Longrightarrow>
      1 \<le> message_id x \<and> message_id x \<le> int (length ?all) \<and> target x = message_id x - 1"
    and dist: "distinct (map message_id ?all)"
    unfolding log_inv_def by blast+
  have bound: "message_id x < message_id m" if "x \<in> set ?all" for x
    using old [OF that] id by simp
  have fresh: "message_id m \<notin> message_id ` set ?all"
    using bound by fastforce
  have set': "set ?all' = insert m (set ?all)" using d' by auto
  have len': "length ?all' = Suc (length ?all)" using d' by auto
  have dist': "distinct (map message_id ?all')"
  proof -
    have A: "distinct (map message_id (outgoing_messages d) @ [message_id m]
                      @ map message_id (incoming_messages d))"
      using dist fresh by (intro distinct_insert_mid) auto
    have B: "distinct ((map message_id (outgoing_messages d)
                      @ map message_id (incoming_messages d)) @ [message_id m])"
      using dist fresh unfolding distinct_append [of _ "[message_id m]"] by auto
    from d' show ?thesis
    proof
      assume e: "d' = d\<lparr>outgoing_messages := outgoing_messages d @ [m]\<rparr>"
      have "map message_id ?all' = map message_id (outgoing_messages d) @ [message_id m]
                      @ map message_id (incoming_messages d)" by (simp add: e)
      then show ?thesis using A by (simp only:)
    next
      assume e: "d' = d\<lparr>incoming_messages := incoming_messages d @ [m]\<rparr>"
      have "map message_id ?all' = (map message_id (outgoing_messages d)
                      @ map message_id (incoming_messages d)) @ [message_id m]" by (simp add: e)
      then show ?thesis using B by (simp only:)
    qed
  qed
  have lm: "last_message d' = Some m"
  proof -
    have "\<forall>x \<in> set (incoming_messages d). message_id x < message_id m"
      and "\<forall>x \<in> set (outgoing_messages d). message_id x < message_id m"
      using bound by simp_all
    then show ?thesis using d' last_message_append_out last_message_append_in by blast
  qed
  show ?thesis
  proof (rule log_inv_intro [OF _ dist' lm])
    fix x assume "x \<in> set ?all'"
    then have "x = m \<or> x \<in> set ?all" unfolding set' by simp
    then show "1 \<le> message_id x \<and> message_id x \<le> int (length ?all')
        \<and> target x = message_id x - 1"
    proof
      assume "x = m" then show ?thesis unfolding len' using id tg by simp
    next
      assume "x \<in> set ?all" from old [OF this] show ?thesis unfolding len' by simp
    qed
  next
    show "message_id m = int (length ?all')" unfolding len' using id by simp
  qed
qed

lemma log_inv_label [simp]: "log_inv (d\<lparr>dialogue_label := l\<rparr>) = log_inv d"
  by (simp add: log_inv_def last_message_def last_incoming_message_def last_outgoing_message_def)

lemma log_inv_update:
  assumes inv: "log_inv d" and upd: "Dialogue_update P d m = Inr d'"
  shows "log_inv d'"
proof -
  let ?m = "with_sender d m"
  from Dialogue_update_accepted [OF upd]
  obtain t where bv: "basic_validation P d ?m = Inr (True, t)"
    and av: "fst (additional_validation d ?m)"
    and d': "d' = d\<lparr>outgoing_messages := outgoing_messages d @ [?m]\<rparr>
         \<or> d' = d\<lparr>incoming_messages := incoming_messages d @ [?m]\<rparr>"
    by blast
  show ?thesis
  proof (cases "last_message d")
    case None
    from basic_validation_initial [OF bv None] have "message_id ?m = 1" "target ?m = 0" by simp_all
    moreover from None have "outgoing_messages d @ incoming_messages d = []"
      by (simp add: last_message_None)
    ultimately show ?thesis by (intro log_inv_append [OF inv _ _ d']) simp_all
  next
    case (Some lm)
    from basic_validation_next [OF bv Some] have id: "message_id ?m = message_id lm + 1" by simp
    from av Some have tg: "target ?m = target lm + 1"
      by (auto simp: additional_validation_def Let_def split: if_splits)
    from inv Some have n: "message_id lm = int (length (outgoing_messages d @ incoming_messages d))"
      by (simp add: log_inv_def)
    from inv last_message_member [OF Some] have "target lm = message_id lm - 1"
      unfolding log_inv_def by blast
    with id tg n show ?thesis by (intro log_inv_append [OF inv _ _ d']) simp_all
  qed
qed

lemma log_inv_reachable: "dialogue_reachable P d \<Longrightarrow> log_inv d"
proof (induction rule: dialogue_reachable.induct)
  case (dr_init label addr r)
  show ?case by (simp add: log_inv_def Dialogue_init_def last_message_def
        last_incoming_message_def last_outgoing_message_def)
next
  case (dr_update d m d')
  then show ?case by (blast intro: log_inv_update)
next
  case (dr_reply d target_message perf kwargs rm d')
  from dr_reply.hyps(2) obtain r where "Dialogue_update P d r = Inr d'"
    by (auto simp: reply_def Let_def split: option.splits sum.splits)
  with dr_reply.IH show ?case by (blast intro: log_inv_update)
next
  case (dr_label d final d')
  from dr_label.hyps(2) have "d' = d\<lparr>dialogue_label := final\<rparr>"
    by (auto simp: update_dialogue_label_def split: if_splits)
  with dr_label.IH show ?case by simp
qed

lemma merged_log_ids:
  assumes "log_inv d"
  shows "map message_id (merged_log d) = [1..int (length (merged_log d))]"
proof -
  let ?all = "outgoing_messages d @ incoming_messages d"
  let ?xs = "map message_id (merged_log d)"
  have len: "length (merged_log d) = length ?all" by (simp add: merged_log_def)
  have set_eq: "set (merged_log d) = set ?all" by (simp add: merged_log_def)
  have "distinct (map message_id ?all)" using assms unfolding log_inv_def by blast
  then have dist: "distinct ?xs"
    unfolding merged_log_def distinct_map by simp
  have sorted: "sorted ?xs" by (simp add: merged_log_def)
  have sub: "set ?xs \<subseteq> {1..int (length (merged_log d))}"
    using assms unfolding log_inv_def len by (auto simp: set_eq)
  have "card (set ?xs) = length (merged_log d)" using distinct_card [OF dist] by simp
  with sub have "set ?xs = {1..int (length (merged_log d))}"
    by (intro card_subset_eq) simp_all
  then have "set ?xs = set [1..int (length (merged_log d))]" by simp
  with sorted dist show ?thesis
    by (intro sorted_distinct_set_unique) simp_all
qed

lemma merged_log_targets:
  assumes "log_inv d" and "m \<in> set (merged_log d)"
  shows "target m = message_id m - 1"
  using assms by (auto simp: log_inv_def merged_log_def)

lemma merged_log_consecutive:
  assumes inv: "log_inv d" and k: "Suc k < length (merged_log d)"
  shows "message_id (merged_log d ! Suc k) = message_id (merged_log d ! k) + 1
       \<and> target (merged_log d ! Suc k) = target (merged_log d ! k) + 1"
proof -
  have ids: "message_id (merged_log d ! i) = 1 + int i" if "i < length (merged_log d)" for i
  proof -
    have "message_id (merged_log d ! i) = map message_id (merged_log d) ! i"
      using that by simp
    also have "\<dots> = [1..int (length (merged_log d))] ! i"
      using merged_log_ids [OF inv] by simp
    also have "\<dots> = 1 + int i" using that by (intro nth_upto) simp
    finally show ?thesis .
  qed
  from k have k': "k < length (merged_log d)" by simp
  have t1: "target (merged_log d ! Suc k) = message_id (merged_log d ! Suc k) - 1"
    using merged_log_targets [OF inv] k nth_mem by blast
  have t2: "target (merged_log d ! k) = message_id (merged_log d ! k) - 1"
    using merged_log_targets [OF inv] k' nth_mem by blast
  from ids [OF k] ids [OF k'] t1 t2 show ?thesis by simp
qed

lemma update_rejects:
  assumes lm: "last_message d = Some lm"
    and bad: "message_id m \<noteq> message_id lm + 1 \<or> target m \<noteq> target lm + 1"
  shows "\<exists>e. Dialogue_update P d m = Inl e"
proof (cases "Dialogue_update P d m")
  case (Inl e)
  then show ?thesis by blast
next
  case (Inr d')
  from Dialogue_update_accepted [OF Inr]
  obtain t where bv: "basic_validation P d (with_sender d m) = Inr (True, t)"
    and av: "fst (additional_validation d (with_sender d m))" by blast
  from basic_validation_next [OF bv lm] have "message_id m = message_id lm + 1" by simp
  moreover from av lm have "target m = target lm + 1"
    by (auto simp: additional_validation_def Let_def split: if_splits)
  ultimately show ?thesis using bad by simp
qed

lemmas dialogue_eval =
  Dialogue_update_def is_belonging_to_dialogue_def Dialogue_is_message_by_self_def
  is_valid_next_message_def basic_validation_def additional_validation_def
  get_message_def get_valid_replies_def get_sender_def get_to_def has_sender_def
  last_message_def last_incoming_message_def last_outgoing_message_def
  dialogue_labels_def label_key_def get_incomplete_version_def dialogue_starter_reference_def
  Dialogue_init_def t_protocol_def t_message_def INITIAL_PERFORMATIVES_def VALID_REPLIES_def
  STARTING_MESSAGE_ID_def STARTING_TARGET_def UNASSIGNED_DIALOGUE_REFERENCE_def
  alice_def bob_def carol_def nonce_a_def nonce_b_def

lemma carol_update1: "Dialogue_update t_protocol carol_dialogue0 carol_message1 = Inr carol_dialogue1"
  by (simp add: carol_dialogue0_def carol_dialogue1_def carol_message1_def carol_label_def
      dialogue_eval)

lemma carol_update2: "Dialogue_update t_protocol carol_dialogue1 carol_message2 = Inr carol_dialogue2"
  by (simp add: carol_dialogue0_def carol_dialogue1_def carol_dialogue2_def carol_message1_def
      carol_message2_def carol_label_def dialogue_eval)

lemma carol_last_message0: "last_message carol_dialogue0 = None"
  by (simp add: carol_dialogue0_def dialogue_eval)

lemma carol_last_message1: "last_message carol_dialogue1 = Some carol_message1"
  by (simp add: carol_dialogue0_def carol_dialogue1_def dialogue_eval)

lemma carol_last_message2: "last_message carol_dialogue2 = Some carol_message2"
  by (simp add: carol_dialogue0_def carol_dialogue2_def dialogue_eval)

lemma carol_reachable2: "dialogue_reachable t_protocol carol_dialogue2"
proof -
  have "dialogue_reachable t_protocol carol_dialogue0"
    unfolding carol_dialogue0_def by (rule dr_init)
  from dr_update [OF this carol_update1] have "dialogue_reachable t_protocol carol_dialogue1" .
  from dr_update [OF this carol_update2] show ?thesis .
qed

text \<open>
  C3. A message that \<open>Dialogue.update\<close> accepts: when it is the first message of the
  dialogue, its performative is an initial performative, its id is 1 and its target is 0;
  otherwise its target lies between 1 and the id of the last message, and its
  performative is one of the valid replies to the performative of the message of the
  dialogue that has the target as its id (the message \<open>get_message\<close> finds).
\<close>

theorem accepted_message_is_valid_reply:
  assumes "Dialogue_update P d m = Inr d'"
  shows "(last_message d = None \<longrightarrow>
            performative m \<in> initial_performatives P \<and> message_id m = 1 \<and> target m = 0)
       \<and> (\<forall>lm. last_message d = Some lm \<longrightarrow>
            1 \<le> target m \<and> target m \<le> message_id lm
            \<and> (\<exists>tm S. get_message d (target m) = Inr (Some tm)
                  \<and> tm \<in> set (outgoing_messages d @ incoming_messages d)
                  \<and> message_id tm = target m
                  \<and> valid_replies P (performative tm) = Some S
                  \<and> performative m \<in> S))"
proof -
  from Dialogue_update_accepted(1) [OF assms]
  obtain t where bv: "basic_validation P d (with_sender d m) = Inr (True, t)" ..
  have A: "performative m \<in> initial_performatives P \<and> message_id m = 1 \<and> target m = 0"
    if "last_message d = None"
    using basic_validation_initial [OF bv that] by simp
  have B: "1 \<le> target m \<and> target m \<le> message_id lm
            \<and> (\<exists>tm S. get_message d (target m) = Inr (Some tm)
                  \<and> tm \<in> set (outgoing_messages d @ incoming_messages d)
                  \<and> message_id tm = target m
                  \<and> valid_replies P (performative tm) = Some S
                  \<and> performative m \<in> S)" if lm: "last_message d = Some lm" for lm
  proof -
    from basic_validation_next [OF bv lm]
    obtain tm S where *: "1 \<le> target m" "target m \<le> message_id lm"
      "get_message d (target m) = Inr (Some tm)"
      "valid_replies P (performative tm) = Some S" "performative m \<in> S"
      by auto
    from get_message_found [OF *(3)] * show ?thesis by blast
  qed
  from A B show ?thesis by blast
qed

theorem accepted_message_is_valid_reply_witness:
  "Dialogue_update t_protocol carol_dialogue0 carol_message1 = Inr carol_dialogue1
   \<and> last_message carol_dialogue0 = None
   \<and> performative carol_message1 \<in> initial_performatives t_protocol
   \<and> message_id carol_message1 = 1 \<and> target carol_message1 = 0
   \<and> Dialogue_update t_protocol carol_dialogue1 carol_message2 = Inr carol_dialogue2
   \<and> last_message carol_dialogue1 = Some carol_message1
   \<and> 1 \<le> target carol_message2 \<and> target carol_message2 \<le> message_id carol_message1
   \<and> (\<exists>tm S. get_message carol_dialogue1 (target carol_message2) = Inr (Some tm)
          \<and> tm \<in> set (outgoing_messages carol_dialogue1 @ incoming_messages carol_dialogue1)
          \<and> message_id tm = target carol_message2
          \<and> valid_replies t_protocol (performative tm) = Some S
          \<and> performative carol_message2 \<in> S)"
proof -
  from accepted_message_is_valid_reply [OF carol_update1] carol_last_message0
  have first: "performative carol_message1 \<in> initial_performatives t_protocol
     \<and> message_id carol_message1 = 1 \<and> target carol_message1 = 0" by blast
  from accepted_message_is_valid_reply [OF carol_update2] carol_last_message1
  have "1 \<le> target carol_message2 \<and> target carol_message2 \<le> message_id carol_message1
   \<and> (\<exists>tm S. get_message carol_dialogue1 (target carol_message2) = Inr (Some tm)
          \<and> tm \<in> set (outgoing_messages carol_dialogue1 @ incoming_messages carol_dialogue1)
          \<and> message_id tm = target carol_message2
          \<and> valid_replies t_protocol (performative tm) = Some S
          \<and> performative carol_message2 \<in> S)" by blast
  with first carol_update1 carol_update2 carol_last_message0 carol_last_message1
  show ?thesis by blast
qed

text \<open>
  C2. In every dialogue that calls of \<open>Dialogue.update\<close> and \<open>Dialogue.reply\<close> produce,
  two consecutive messages of the merged chronological log have consecutive ids and
  consecutive targets; and a message whose id is not the last message's id plus one, or
  whose target is not the last message's target plus one, is rejected: \<open>update\<close> raises
  and appends nothing.
\<close>

theorem merged_log_consecutive_and_strict:
  assumes "dialogue_reachable P d"
  shows "(\<forall>k. Suc k < length (merged_log d) \<longrightarrow>
            message_id (merged_log d ! Suc k) = message_id (merged_log d ! k) + 1
            \<and> target (merged_log d ! Suc k) = target (merged_log d ! k) + 1)
       \<and> (\<forall>m lm. last_message d = Some lm
            \<and> (message_id m \<noteq> message_id lm + 1 \<or> target m \<noteq> target lm + 1)
            \<longrightarrow> (\<exists>e. Dialogue_update P d m = Inl e))"
  using merged_log_consecutive [OF log_inv_reachable [OF assms]] update_rejects
  by blast

theorem merged_log_consecutive_and_strict_witness:
  "dialogue_reachable t_protocol carol_dialogue2
   \<and> Suc 0 < length (merged_log carol_dialogue2)
   \<and> message_id (merged_log carol_dialogue2 ! Suc 0) = message_id (merged_log carol_dialogue2 ! 0) + 1
   \<and> target (merged_log carol_dialogue2 ! Suc 0) = target (merged_log carol_dialogue2 ! 0) + 1
   \<and> last_message carol_dialogue2 = Some carol_message2
   \<and> message_id (carol_message2\<lparr>message_id := 4, target := 3\<rparr>) \<noteq> message_id carol_message2 + 1
   \<and> (\<exists>e. Dialogue_update t_protocol carol_dialogue2
             (carol_message2\<lparr>message_id := 4, target := 3\<rparr>) = Inl e)"
proof -
  have len: "Suc 0 < length (merged_log carol_dialogue2)"
    by (simp add: merged_log_def carol_dialogue2_def carol_dialogue0_def Dialogue_init_def)
  have bad: "message_id (carol_message2\<lparr>message_id := 4, target := 3\<rparr>)
               \<noteq> message_id carol_message2 + 1"
    by (simp add: carol_message2_def t_message_def)
  from merged_log_consecutive_and_strict [OF carol_reachable2] len bad carol_last_message2
  have "message_id (merged_log carol_dialogue2 ! Suc 0) = message_id (merged_log carol_dialogue2 ! 0) + 1
   \<and> target (merged_log carol_dialogue2 ! Suc 0) = target (merged_log carol_dialogue2 ! 0) + 1
   \<and> (\<exists>e. Dialogue_update t_protocol carol_dialogue2
             (carol_message2\<lparr>message_id := 4, target := 3\<rparr>) = Inl e)"
    by blast
  with carol_reachable2 len bad carol_last_message2 show ?thesis by blast
qed

subsection \<open>The registry\<close>

lemmas registry_eval =
  Dialogues_update_def Dialogues_create_def Dialogues_is_message_by_other_def
  Dialogues_is_message_by_self_def Dialogues_agent_address_def has_to_def
  create_opponent_initiated_def create_self_initiated_def private_create_def
  complete_dialogue_reference_def get_dialogue_ref_def get_dialogue_def get_latest_label_def
  get_dialogue_from_label_def new_self_initiated_dialogue_reference_def
  update_dialogue_label_def Dialogues_init_def Let_def

lemma carol_first_message:
  "Dialogues_update t_protocol alice_registry0 nonce_b carol_message1
     = (Inr (Some carol_dialogue1), carol_registry1)"
  by (simp add: alice_registry0_def carol_registry1_def carol_dialogue1_def carol_dialogue0_def
      carol_message1_def carol_label_def registry_eval dialogue_eval)

lemma carol_second_message_lookup: "get_dialogue carol_registry1 carol_message2 = Inr None"
  by (simp add: carol_registry1_def carol_dialogue1_def carol_dialogue0_def
      carol_message1_def carol_message2_def carol_label_def registry_eval dialogue_eval)

lemma carol_second_message:
  "Dialogues_update t_protocol carol_registry1 nonce_a carol_message2 = (Inr None, carol_registry1)"
  by (simp add: carol_registry1_def carol_dialogue1_def carol_dialogue0_def
      carol_message1_def carol_message2_def carol_label_def registry_eval dialogue_eval)

lemmas scenario_defs =
  alice_registry0_def carol_registry1_def carol_dialogue0_def carol_dialogue1_def
  carol_dialogue2_def carol_message1_def carol_message2_def carol_label_def
  bob_label_def bob_message1_def bob_dialogue1_def bob_registry1_def bob_final_label_def
  bob_message2_def bob_message3_def bob_dialogue2_def bob_registry2_def carol_message_bad_def
  initial_message_def

lemma bob_create:
  "Dialogues_create t_protocol alice_registry0 nonce_a bob PERFORMATIVE_PT ()
     = (Inr (bob_message1, bob_dialogue1), bob_registry1)"
  by (simp add: scenario_defs registry_eval dialogue_eval)

lemma bob_reply_promotes:
  "Dialogues_update t_protocol bob_registry1 nonce_b bob_message2
     = (Inr (Some bob_dialogue2), bob_registry2)"
  by (simp add: scenario_defs registry_eval dialogue_eval fun_upd_twist)

lemma is_nonce_a: "is_nonce nonce_a"
  by (simp add: is_nonce_def nonce_a_def NONCE_BYTES_NB_def)

lemma is_nonce_b: "is_nonce nonce_b"
  by (simp add: is_nonce_def nonce_b_def NONCE_BYTES_NB_def)

lemma bob_registry2_reachable: "registry_reachable t_protocol alice bob_registry2"
proof -
  have "registry_reachable t_protocol alice (alice_registry0 :: (Performative, unit, Role) Dialogues)"
    unfolding alice_registry0_def by (rule rr_init)
  from rr_create [OF this is_nonce_a, of bob PERFORMATIVE_PT "()"]
  have "registry_reachable t_protocol alice bob_registry1" by (simp add: bob_create)
  from rr_update [OF this is_nonce_b, of bob_message2]
  show ?thesis by (simp add: bob_reply_promotes)
qed

lemma Dialogue_update_with_sender:
  assumes "Dialogue_update P d m = Inr d'" and "sender m = Some s"
  shows "d' = (if sval s = sval (agent_address d)
               then d\<lparr>outgoing_messages := outgoing_messages d @ [m]\<rparr>
               else d\<lparr>incoming_messages := incoming_messages d @ [m]\<rparr>)"
  using assms
  unfolding Dialogue_update_def Let_def
  by (auto simp: has_sender_def Dialogue_is_message_by_self_def get_sender_def
      split: sum.splits if_splits prod.splits)

lemma private_create_Inr:
  assumes "private_create reg L r c = (Inr d, reg1)"
  shows "label_key L \<notin> dom (incomplete_to_complete_dialogue_labels reg)
    \<and> sval (registry_agent_address reg) \<noteq> []
    \<and> (case c of
         None \<Rightarrow>
           label_key L \<notin> dom (dialogues_by_dialogue_label reg)
           \<and> d = Dialogue_init L (registry_agent_address reg) r
           \<and> reg1 = reg\<lparr>dialogues_by_dialogue_label :=
                          (dialogues_by_dialogue_label reg)(label_key L \<mapsto> d)\<rparr>
       | Some C \<Rightarrow>
           label_key C \<notin> dom (dialogues_by_dialogue_label reg)
           \<and> d = Dialogue_init C (registry_agent_address reg) r
           \<and> reg1 = reg\<lparr>incomplete_to_complete_dialogue_labels :=
                          (incomplete_to_complete_dialogue_labels reg)(label_key L \<mapsto> C),
                        dialogues_by_dialogue_label :=
                          (dialogues_by_dialogue_label reg)(label_key C \<mapsto> d)\<rparr>)"
  using assms
  unfolding private_create_def Let_def Dialogues_agent_address_def
  by (cases c) (auto split: if_splits)

lemma create_self_initiated_Inr:
  assumes "create_self_initiated reg cp reference r = (Inr d, reg1)"
  shows "fst reference \<noteq> [] \<and> snd reference = []
    \<and> sval (registry_agent_address reg) \<noteq> []
    \<and> label_key \<lparr> label_dialogue_reference = reference, dialogue_opponent_addr = cp,
                   dialogue_starter_addr = registry_agent_address reg \<rparr>
         \<notin> dom (incomplete_to_complete_dialogue_labels reg)
    \<and> label_key \<lparr> label_dialogue_reference = reference, dialogue_opponent_addr = cp,
                   dialogue_starter_addr = registry_agent_address reg \<rparr>
         \<notin> dom (dialogues_by_dialogue_label reg)
    \<and> d = Dialogue_init \<lparr> label_dialogue_reference = reference, dialogue_opponent_addr = cp,
                   dialogue_starter_addr = registry_agent_address reg \<rparr>
              (registry_agent_address reg) r
    \<and> reg1 = reg\<lparr>dialogues_by_dialogue_label :=
                   (dialogues_by_dialogue_label reg)(label_key (dialogue_label d) \<mapsto> d)\<rparr>"
proof -
  from assms have ref: "fst reference \<noteq> [] \<and> snd reference = []"
    and a: "sval (registry_agent_address reg) \<noteq> []"
    and pc: "private_create reg \<lparr> label_dialogue_reference = reference,
                 dialogue_opponent_addr = cp,
                 dialogue_starter_addr = registry_agent_address reg \<rparr> r None = (Inr d, reg1)"
    unfolding create_self_initiated_def Dialogues_agent_address_def
      UNASSIGNED_DIALOGUE_REFERENCE_def
    by (auto split: if_splits)
  from private_create_Inr [OF pc] ref a show ?thesis
    by (simp add: Dialogue_init_def)
qed

lemma Dialogues_create_unfold:
  assumes "sval (registry_agent_address reg) \<noteq> []"
  shows "Dialogues_create P reg nonce cp perf kwargs =
     (let m0 = initial_message (registry_agent_address reg) nonce cp perf kwargs in
      case create_self_initiated reg cp (nonce, []) (role_from_first_message P m0) of
        (Inl e, reg1) \<Rightarrow> (Inl e, reg1)
      | (Inr dialogue, reg1) \<Rightarrow>
          (case Dialogue_update P dialogue m0 of
             Inl (InvalidDialogueMessage e) \<Rightarrow>
               (if label_key (dialogue_label dialogue) \<in> dom (dialogues_by_dialogue_label reg1)
                then
                  (Inl (SyntaxError
                     ''Cannot create a dialogue with the specified performative and contents.''),
                   reg1\<lparr>dialogues_by_dialogue_label :=
                           (dialogues_by_dialogue_label reg1)
                             (label_key (dialogue_label dialogue) := None)\<rparr>)
                else (Inl (KeyError ''pop''), reg1))
           | Inl e \<Rightarrow> (Inl e, reg1)
           | Inr dialogue' \<Rightarrow>
               (Inr (m0, dialogue'),
                reg1\<lparr>dialogues_by_dialogue_label :=
                        (dialogues_by_dialogue_label reg1)
                          (label_key (dialogue_label dialogue) \<mapsto> dialogue')\<rparr>)))"
  using assms
  by (simp add: Dialogues_create_def Dialogues_agent_address_def initial_message_def
      new_self_initiated_dialogue_reference_def STARTING_MESSAGE_ID_def STARTING_TARGET_def
      UNASSIGNED_DIALOGUE_REFERENCE_def Let_def)

lemma Dialogues_create_no_address:
  assumes "sval (registry_agent_address reg) = []"
  shows "Dialogues_create P reg nonce cp perf kwargs
           = (Inl (AssertionError ''agent_address is not set.''), reg)"
  using assms by (simp add: Dialogues_create_def Dialogues_agent_address_def)

text \<open>
  C10. An inbound message whose reference is \<open>(r, "")\<close> with \<open>r\<close> not empty and whose id
  is not 1: \<open>Dialogues.update\<close> neither returns \<open>None\<close> nor creates a dialogue; it takes the
  continuation branch and fails the assertion of \<open>_complete_dialogue_reference\<close>, and the
  registry (both maps) is as before. The registry's own address is set, as the
  property \<open>agent_address\<close> asserts.
\<close>

theorem update_incomplete_reference_not_first:
  assumes "sval (registry_agent_address reg) \<noteq> []"
    and "sender m = Some s" and "sval s \<noteq> sval (registry_agent_address reg)"
    and "has_to m"
    and "dialogue_reference m = (r, [])" and "r \<noteq> []" and "message_id m \<noteq> 1"
  shows "Dialogues_update P reg nonce m
           = (Inl (AssertionError ''Only complete dialogue references allowed.''), reg)"
  using assms
  by (simp add: Dialogues_update_def Dialogues_is_message_by_other_def
      Dialogues_is_message_by_self_def Dialogues_agent_address_def get_sender_def
      complete_dialogue_reference_def UNASSIGNED_DIALOGUE_REFERENCE_def)

theorem update_incomplete_reference_not_first_witness:
  "Dialogues_update t_protocol alice_registry0 nonce_b carol_message_bad
     = (Inl (AssertionError ''Only complete dialogue references allowed.''), alice_registry0)"
proof -
  have "sval (registry_agent_address (alice_registry0 :: (Performative, unit, Role) Dialogues)) \<noteq> []"
    and "sender carol_message_bad = Some carol"
    and "sval carol \<noteq> sval (registry_agent_address (alice_registry0 :: (Performative, unit, Role) Dialogues))"
    and "has_to carol_message_bad"
    and "dialogue_reference carol_message_bad = (nonce_a, [])"
    and "nonce_a \<noteq> []" and "message_id carol_message_bad \<noteq> 1"
    by (simp_all add: scenario_defs Dialogues_init_def t_message_def has_to_def
        alice_def carol_def nonce_a_def)
  from update_incomplete_reference_not_first [OF this] show ?thesis .
qed

text \<open>
  C6. \<open>Dialogues.create\<close> is atomic on failure: when the call gets as far as validating
  the initial message (the agent's address is set, the nonce is not empty and the new
  label is in neither map) and \<open>Dialogue.update\<close> raises \<open>InvalidDialogueMessage\<close> for it,
  the caller sees \<open>SyntaxError\<close> and the registry is exactly what it was before the call.
\<close>

theorem create_failure_is_atomic:
  assumes a: "sval (registry_agent_address reg) \<noteq> []"
    and n: "nonce \<noteq> []"
    and fresh1: "label_key \<lparr> label_dialogue_reference = (nonce, []), dialogue_opponent_addr = cp,
              dialogue_starter_addr = registry_agent_address reg \<rparr>
           \<notin> dom (incomplete_to_complete_dialogue_labels reg)"
    and fresh2: "label_key \<lparr> label_dialogue_reference = (nonce, []), dialogue_opponent_addr = cp,
              dialogue_starter_addr = registry_agent_address reg \<rparr>
           \<notin> dom (dialogues_by_dialogue_label reg)"
    and fails: "Dialogue_update P
           (Dialogue_init \<lparr> label_dialogue_reference = (nonce, []), dialogue_opponent_addr = cp,
              dialogue_starter_addr = registry_agent_address reg \<rparr>
              (registry_agent_address reg)
              (role_from_first_message P
                 (initial_message (registry_agent_address reg) nonce cp perf kwargs)))
           (initial_message (registry_agent_address reg) nonce cp perf kwargs)
         = Inl (InvalidDialogueMessage e)"
  shows "Dialogues_create P reg nonce cp perf kwargs
       = (Inl (SyntaxError
            ''Cannot create a dialogue with the specified performative and contents.''), reg)"
proof -
  let ?a = "registry_agent_address reg"
  let ?m0 = "initial_message ?a nonce cp perf kwargs :: ('a, 'b) Message"
  let ?L = "\<lparr> label_dialogue_reference = (nonce, []), dialogue_opponent_addr = cp,
              dialogue_starter_addr = ?a \<rparr>"
  let ?d0 = "Dialogue_init ?L ?a (role_from_first_message P ?m0) :: ('a, 'b, 'c) Dialogue"
  let ?reg1 = "reg\<lparr>dialogues_by_dialogue_label :=
                   (dialogues_by_dialogue_label reg)(label_key ?L \<mapsto> ?d0)\<rparr>"
  have cs: "create_self_initiated reg cp (nonce, []) (role_from_first_message P ?m0)
              = (Inr ?d0, ?reg1)"
    using a n fresh1 fresh2
    by (simp add: create_self_initiated_def private_create_def Dialogues_agent_address_def
        UNASSIGNED_DIALOGUE_REFERENCE_def Let_def)
  have lab: "dialogue_label ?d0 = ?L" by (simp add: Dialogue_init_def)
  have restore: "?reg1\<lparr>dialogues_by_dialogue_label :=
                   (dialogues_by_dialogue_label ?reg1)(label_key ?L := None)\<rparr> = reg"
    using fresh2 by (simp add: domIff)
  show ?thesis
    unfolding Dialogues_create_unfold [OF a] Let_def cs
    using fails restore by (simp add: lab)
qed

theorem create_failure_is_atomic_witness:
  "Dialogues_create t_protocol alice_registry0 nonce_a bob PERFORMATIVE_MT ()
       = (Inl (SyntaxError
            ''Cannot create a dialogue with the specified performative and contents.''), alice_registry0)"
proof -
  have 1: "sval (registry_agent_address alice_registry0) \<noteq> []" by (simp add: scenario_defs Dialogues_init_def alice_def)
  have 2: "nonce_a \<noteq> []" by (simp add: nonce_a_def)
  have 3: "label_key \<lparr> label_dialogue_reference = (nonce_a, []), dialogue_opponent_addr = bob,
              dialogue_starter_addr = registry_agent_address alice_registry0 \<rparr>
           \<notin> dom (incomplete_to_complete_dialogue_labels (alice_registry0:: (Performative, unit, Role) Dialogues))"
    by (simp add: scenario_defs Dialogues_init_def)
  have 4: "label_key \<lparr> label_dialogue_reference = (nonce_a, []), dialogue_opponent_addr = bob,
              dialogue_starter_addr = registry_agent_address alice_registry0 \<rparr>
           \<notin> dom (dialogues_by_dialogue_label (alice_registry0:: (Performative, unit, Role) Dialogues))"
    by (simp add: scenario_defs Dialogues_init_def)
  have 5: "Dialogue_update t_protocol
           (Dialogue_init \<lparr> label_dialogue_reference = (nonce_a, []), dialogue_opponent_addr = bob,
              dialogue_starter_addr = registry_agent_address alice_registry0 \<rparr>
              (registry_agent_address alice_registry0)
              (role_from_first_message t_protocol
                 (initial_message (registry_agent_address alice_registry0) nonce_a bob PERFORMATIVE_MT ())))
           (initial_message (registry_agent_address alice_registry0) nonce_a bob PERFORMATIVE_MT ())
         = Inl (InvalidDialogueMessage ''Invalid initial performative.'')"
    by (simp add: scenario_defs Dialogues_init_def dialogue_eval)
  from create_failure_is_atomic [OF 1 2 3 4 5] show ?thesis .
qed

text \<open>
  C7. When \<open>Dialogues.create\<close> returns normally for a counterparty that is a peer (its
  address is not the agent's own: the opponent of a label is never the owning agent), the
  message has id 1, target 0, the reference \<open>(n, "")\<close> with \<open>n\<close> the nonce drawn (not
  empty, and new for this counterparty), the agent's address as sender and the
  counterparty as receiver; the dialogue is self-initiated, is stored under the incomplete
  label \<open>((n, ""), counterparty, agent_address)\<close> and holds exactly that message, as
  outgoing.
\<close>

theorem create_returns:
  assumes "Dialogues_create P reg nonce cp perf kwargs = (Inr (m, d), reg')"
    and peer: "sval cp \<noteq> sval (registry_agent_address reg)"
  shows "message_id m = 1 \<and> target m = 0 \<and> dialogue_reference m = (nonce, [])
       \<and> nonce \<noteq> []
       \<and> sender m = Some (registry_agent_address reg) \<and> to m = Some cp
       \<and> performative m = perf \<and> content m = kwargs
       \<and> is_self_initiated d
       \<and> dialogue_label d =
            \<lparr> label_dialogue_reference = (nonce, []), dialogue_opponent_addr = cp,
              dialogue_starter_addr = registry_agent_address reg \<rparr>
       \<and> label_key (dialogue_label d) \<notin> dom (dialogues_by_dialogue_label reg)
       \<and> dialogues_by_dialogue_label reg' (label_key (dialogue_label d)) = Some d
       \<and> outgoing_messages d = [m] \<and> incoming_messages d = []"
proof -
  let ?a = "registry_agent_address reg"
  let ?m0 = "initial_message ?a nonce cp perf kwargs :: ('a, 'b) Message"
  let ?L = "\<lparr> label_dialogue_reference = (nonce, []), dialogue_opponent_addr = cp,
              dialogue_starter_addr = ?a \<rparr>"
  have a: "sval ?a \<noteq> []"
    using assms(1) Dialogues_create_no_address [of reg P nonce cp perf kwargs] by auto
  from peer have other: "cp \<noteq> ?a" by auto
  from assms(1) obtain d0 reg1 where
    cs: "create_self_initiated reg cp (nonce, []) (role_from_first_message P ?m0) = (Inr d0, reg1)"
    and up: "Dialogue_update P d0 ?m0 = Inr d"
    and m: "m = ?m0"
    and reg': "reg' = reg1\<lparr>dialogues_by_dialogue_label :=
                        (dialogues_by_dialogue_label reg1)(label_key (dialogue_label d0) \<mapsto> d)\<rparr>"
    unfolding Dialogues_create_unfold [OF a] Let_def
    by (auto split: prod.splits sum.splits error.splits if_splits)
  from create_self_initiated_Inr [OF cs]
  have n: "nonce \<noteq> []" and fresh: "label_key ?L \<notin> dom (dialogues_by_dialogue_label reg)"
    and d0: "d0 = Dialogue_init ?L ?a (role_from_first_message P ?m0)"
    by simp_all
  have "sender ?m0 = Some ?a" by (simp add: initial_message_def)
  from Dialogue_update_with_sender [OF up this]
  have d: "d = d0\<lparr>outgoing_messages := outgoing_messages d0 @ [?m0]\<rparr>"
    by (simp add: d0 Dialogue_init_def)
  show ?thesis
    using n fresh other by (simp add: m d d0 reg' Dialogue_init_def initial_message_def)
qed

theorem create_returns_witness:
  "Dialogues_create t_protocol alice_registry0 nonce_a bob PERFORMATIVE_PT ()
     = (Inr (bob_message1, bob_dialogue1), bob_registry1)
   \<and> sval bob \<noteq> sval (registry_agent_address alice_registry0)
   \<and> message_id bob_message1 = 1 \<and> target bob_message1 = 0
   \<and> dialogue_reference bob_message1 = (nonce_a, [])
   \<and> sender bob_message1 = Some (registry_agent_address alice_registry0)
   \<and> to bob_message1 = Some bob
   \<and> is_self_initiated bob_dialogue1
   \<and> dialogues_by_dialogue_label bob_registry1 (label_key (dialogue_label bob_dialogue1))
        = Some bob_dialogue1
   \<and> outgoing_messages bob_dialogue1 = [bob_message1] \<and> incoming_messages bob_dialogue1 = []"
proof -
  have peer: "sval bob \<noteq> sval (registry_agent_address
                 (alice_registry0 :: (Performative, unit, Role) Dialogues))"
    by (simp add: alice_registry0_def Dialogues_init_def alice_def bob_def)
  from create_returns [OF bob_create peer] bob_create peer show ?thesis by blast
qed

text \<open>
  C1. The code evaluated on an opponent-initiated dialogue: carol's first message creates
  the dialogue, stored under its complete label with the promotion recorded; for her next
  message, which carries the dialogue's reference, \<open>get_dialogue\<close> finds nothing and
  \<open>Dialogues.update\<close> returns \<open>None\<close>.
\<close>

theorem opponent_initiated_dialogue_not_found:
  "Dialogues_update t_protocol alice_registry0 nonce_b carol_message1
     = (Inr (Some carol_dialogue1), carol_registry1)
   \<and> dialogues_by_dialogue_label carol_registry1 (label_key carol_label) = Some carol_dialogue1
   \<and> incomplete_to_complete_dialogue_labels carol_registry1
        (label_key (get_incomplete_version carol_label)) = Some carol_label
   \<and> sender carol_message2 = Some carol
   \<and> dialogue_reference carol_message2 = label_dialogue_reference (dialogue_label carol_dialogue1)
   \<and> get_dialogue carol_registry1 carol_message2 = Inr None
   \<and> Dialogues_update t_protocol carol_registry1 nonce_a carol_message2
        = (Inr None, carol_registry1)"
  using carol_first_message carol_second_message_lookup carol_second_message
  by (simp add: scenario_defs t_message_def Dialogue_init_def)

text \<open>
  C4. The code evaluated on the same message: its reference is not \<open>("", "")\<close>, the registry
  holds a dialogue under the label \<open>(reference, sender, sender)\<close> that the message
  belongs to, and that dialogue accepts the message; yet \<open>Dialogues.update\<close> returns \<open>None\<close>.
\<close>

theorem update_none_although_dialogue_accepts:
  "dialogue_reference carol_message2 \<noteq> ([], [])
   \<and> dialogues_by_dialogue_label carol_registry1
        (label_key \<lparr> label_dialogue_reference = dialogue_reference carol_message2,
                      dialogue_opponent_addr = carol, dialogue_starter_addr = carol \<rparr>)
        = Some carol_dialogue1
   \<and> is_belonging_to_dialogue carol_dialogue1 carol_message2 = Inr True
   \<and> Dialogue_update t_protocol carol_dialogue1 carol_message2 = Inr carol_dialogue2
   \<and> fst (Dialogues_update t_protocol carol_registry1 nonce_a carol_message2) = Inr None"
  using carol_update2 carol_second_message
  by (simp add: scenario_defs dialogue_eval)

subsection \<open>The invariant of the registry\<close>

lemma label_key_proj [simp]:
  "fst (label_key L) = label_dialogue_reference L"
  "fst (snd (label_key L)) = sval (dialogue_opponent_addr L)"
  "snd (snd (label_key L)) = sval (dialogue_starter_addr L)"
  by (simp_all add: label_key_def)

lemma get_incomplete_version_proj [simp]:
  "label_dialogue_reference (get_incomplete_version L) = (fst (label_dialogue_reference L), [])"
  "dialogue_opponent_addr (get_incomplete_version L) = dialogue_opponent_addr L"
  "dialogue_starter_addr (get_incomplete_version L) = dialogue_starter_addr L"
  by (simp_all add: get_incomplete_version_def dialogue_starter_reference_def
      UNASSIGNED_DIALOGUE_REFERENCE_def)

lemma maps_inv_empty: "maps_inv a Map.empty Map.empty"
  by (simp add: maps_inv_def)

lemma maps_invD:
  assumes "maps_inv a B I" and "I k = Some C"
  shows "k \<notin> dom B" "snd (fst k) = []" "label_key C \<in> dom B"
    "fst (label_dialogue_reference C) \<noteq> []" "snd (label_dialogue_reference C) \<noteq> []"
    "k = label_key (get_incomplete_version C)"
  using assms unfolding maps_inv_def by blast+

lemma maps_inv_starter:
  assumes "maps_inv a B I" and "k \<in> dom B" and "snd (fst k) = []"
  shows "snd (snd k) = sval a"
  using assms unfolding maps_inv_def by blast

lemma maps_inv_address:
  assumes "maps_inv a B I" and "B \<noteq> Map.empty \<or> I \<noteq> Map.empty"
  shows "sval a \<noteq> []"
  using assms unfolding maps_inv_def by blast

lemma maps_invI:
  assumes "\<And>k C. I k = Some C \<Longrightarrow>
        k \<notin> dom B \<and> snd (fst k) = []
        \<and> label_key C \<in> dom B
        \<and> fst (label_dialogue_reference C) \<noteq> []
        \<and> snd (label_dialogue_reference C) \<noteq> []
        \<and> k = label_key (get_incomplete_version C)"
    and "\<And>k. k \<in> dom B \<Longrightarrow> snd (fst k) = [] \<Longrightarrow> snd (snd k) = sval a"
    and "sval a \<noteq> []"
  shows "maps_inv a B I"
  using assms unfolding maps_inv_def by blast

lemma maps_inv_remove:
  assumes inv: "maps_inv a B I" and k: "snd (fst k) = []" and a: "sval a \<noteq> []"
  shows "maps_inv a (B(k := None)) I"
proof (rule maps_invI [OF _ _ a])
  fix k' C assume e: "I k' = Some C"
  from maps_invD [OF inv e] k have "label_key C \<noteq> k" by auto
  with maps_invD [OF inv e]
  show "k' \<notin> dom (B(k := None)) \<and> snd (fst k') = []
        \<and> label_key C \<in> dom (B(k := None))
        \<and> fst (label_dialogue_reference C) \<noteq> []
        \<and> snd (label_dialogue_reference C) \<noteq> []
        \<and> k' = label_key (get_incomplete_version C)"
    by (simp add: domIff)
next
  fix k' assume "k' \<in> dom (B(k := None))" and s: "snd (fst k') = []"
  then have "k' \<in> dom B" by (simp add: domIff split: if_splits)
  from maps_inv_starter [OF inv this s] show "snd (snd k') = sval a" .
qed

lemma maps_inv_store:
  assumes inv: "maps_inv a B I" and k: "k \<notin> dom I"
    and st: "snd (fst k) = [] \<Longrightarrow> snd (snd k) = sval a" and a: "sval a \<noteq> []"
  shows "maps_inv a (B(k \<mapsto> d)) I"
proof (rule maps_invI [OF _ _ a])
  fix k' C assume e: "I k' = Some C"
  then have "k' \<noteq> k" using k by auto
  with maps_invD [OF inv e]
  show "k' \<notin> dom (B(k \<mapsto> d)) \<and> snd (fst k') = []
        \<and> label_key C \<in> dom (B(k \<mapsto> d))
        \<and> fst (label_dialogue_reference C) \<noteq> []
        \<and> snd (label_dialogue_reference C) \<noteq> []
        \<and> k' = label_key (get_incomplete_version C)"
    by (simp add: domIff)
next
  fix k' assume k': "k' \<in> dom (B(k \<mapsto> d))" and s: "snd (fst k') = []"
  show "snd (snd k') = sval a"
  proof (cases "k' = k")
    case True with st s show ?thesis by simp
  next
    case False
    with k' have "k' \<in> dom B" by (simp add: domIff)
    from maps_inv_starter [OF inv this s] show ?thesis .
  qed
qed

lemma maps_inv_overwrite:
  assumes inv: "maps_inv a B I" and k: "k \<in> dom B"
  shows "maps_inv a (B(k \<mapsto> d)) I"
proof -
  from k have "B \<noteq> Map.empty" by auto
  with inv have a: "sval a \<noteq> []" by (auto dest: maps_inv_address)
  have "k \<notin> dom I"
  proof
    assume "k \<in> dom I"
    then obtain C where "I k = Some C" by auto
    from maps_invD(1) [OF inv this] k show False by simp
  qed
  moreover have "snd (fst k) = [] \<Longrightarrow> snd (snd k) = sval a"
    using maps_inv_starter [OF inv k] .
  ultimately show ?thesis using inv a by (intro maps_inv_store)
qed

lemma maps_inv_entry:
  assumes inv: "maps_inv a B I" and kB: "label_key (get_incomplete_version C) \<notin> dom B"
    and CB: "label_key C \<in> dom B"
    and f: "fst (label_dialogue_reference C) \<noteq> []" and s: "snd (label_dialogue_reference C) \<noteq> []"
    and a: "sval a \<noteq> []"
  shows "maps_inv a B (I(label_key (get_incomplete_version C) \<mapsto> C))"
proof (rule maps_invI [OF _ _ a])
  fix k' C' assume e: "(I(label_key (get_incomplete_version C) \<mapsto> C)) k' = Some C'"
  show "k' \<notin> dom B \<and> snd (fst k') = []
        \<and> label_key C' \<in> dom B
        \<and> fst (label_dialogue_reference C') \<noteq> []
        \<and> snd (label_dialogue_reference C') \<noteq> []
        \<and> k' = label_key (get_incomplete_version C')"
  proof (cases "k' = label_key (get_incomplete_version C)")
    case True
    with e have "C' = C" by simp
    with True kB CB f s show ?thesis by simp
  next
    case False
    with e have "I k' = Some C'" by simp
    from maps_invD [OF inv this] show ?thesis by simp
  qed
next
  fix k' assume "k' \<in> dom B" and "snd (fst k') = []"
  then show "snd (snd k') = sval a" by (rule maps_inv_starter [OF inv])
qed

lemma registry_inv_same_maps:
  assumes "registry_inv a reg"
    and "registry_agent_address reg' = registry_agent_address reg"
    and "dialogues_by_dialogue_label reg' = dialogues_by_dialogue_label reg"
    and "incomplete_to_complete_dialogue_labels reg' = incomplete_to_complete_dialogue_labels reg"
  shows "registry_inv a reg'"
  using assms by (simp add: registry_inv_def)

lemma registry_inv_overwrite:
  assumes "registry_inv a reg" and "k \<in> dom (dialogues_by_dialogue_label reg)"
  shows "registry_inv a
           (reg\<lparr>dialogues_by_dialogue_label := (dialogues_by_dialogue_label reg)(k \<mapsto> d)\<rparr>)"
  using assms by (simp add: registry_inv_def maps_inv_overwrite)

lemma private_create_None_inv:
  assumes inv: "registry_inv a reg" and st: "dialogue_starter_addr L = a"
  shows "registry_inv a (snd (private_create reg L r None))"
proof -
  let ?B = "dialogues_by_dialogue_label reg"
  let ?I = "incomplete_to_complete_dialogue_labels reg"
  from inv have adr: "registry_agent_address reg = a" and m: "maps_inv a ?B ?I"
    by (simp_all add: registry_inv_def)
  have "snd (private_create reg L r None) = reg
      \<or> (label_key L \<notin> dom ?I \<and> sval a \<noteq> []
          \<and> snd (private_create reg L r None)
              = reg\<lparr>dialogues_by_dialogue_label := ?B(label_key L \<mapsto> Dialogue_init L a r)\<rparr>)"
    unfolding private_create_def Let_def Dialogues_agent_address_def
    by (auto simp: adr split: if_splits)
  then show ?thesis
  proof
    assume "snd (private_create reg L r None) = reg"
    with inv show ?thesis by simp
  next
    assume *: "label_key L \<notin> dom ?I \<and> sval a \<noteq> []
          \<and> snd (private_create reg L r None)
              = reg\<lparr>dialogues_by_dialogue_label := ?B(label_key L \<mapsto> Dialogue_init L a r)\<rparr>"
    then have "maps_inv a (?B(label_key L \<mapsto> Dialogue_init L a r)) ?I"
      using m st by (intro maps_inv_store) simp_all
    with * adr show ?thesis by (simp add: registry_inv_def)
  qed
qed

lemma private_create_Some_inv:
  assumes inv: "registry_inv a reg"
    and L: "label_key L = label_key (get_incomplete_version C)"
    and f: "fst (label_dialogue_reference C) \<noteq> []"
    and s: "snd (label_dialogue_reference C) \<noteq> []"
    and other: "sval (dialogue_starter_addr C) \<noteq> sval a"
    and a: "sval a \<noteq> []"
  shows "registry_inv a (snd (private_create reg L r (Some C)))"
proof -
  let ?B = "dialogues_by_dialogue_label reg"
  let ?I = "incomplete_to_complete_dialogue_labels reg"
  let ?k = "label_key (get_incomplete_version C)"
  from inv have adr: "registry_agent_address reg = a" and m: "maps_inv a ?B ?I"
    by (simp_all add: registry_inv_def)
  have kB: "?k \<notin> dom ?B"
  proof
    assume "?k \<in> dom ?B"
    from maps_inv_starter [OF m this] other show False by simp
  qed
  have CI: "label_key C \<notin> dom ?I"
  proof
    assume "label_key C \<in> dom ?I"
    then obtain C' where "?I (label_key C) = Some C'" by auto
    from maps_invD(2) [OF m this] s show False by simp
  qed
  have kC: "?k \<noteq> label_key C"
  proof
    assume "?k = label_key C"
    then have "fst ?k = fst (label_key C)" by simp
    with s show False by (simp add: prod_eq_iff)
  qed
  have "snd (private_create reg L r (Some C)) = reg
      \<or> (label_key C \<in> dom ?B
          \<and> snd (private_create reg L r (Some C))
              = reg\<lparr>incomplete_to_complete_dialogue_labels := ?I(?k \<mapsto> C)\<rparr>)
      \<or> snd (private_create reg L r (Some C))
              = reg\<lparr>incomplete_to_complete_dialogue_labels := ?I(?k \<mapsto> C),
                    dialogues_by_dialogue_label := ?B(label_key C \<mapsto> Dialogue_init C a r)\<rparr>"
    unfolding private_create_def Let_def Dialogues_agent_address_def L
    using a by (auto simp: adr split: if_splits)
  then consider
      (same) "snd (private_create reg L r (Some C)) = reg"
    | (entry) "label_key C \<in> dom ?B"
        "snd (private_create reg L r (Some C))
              = reg\<lparr>incomplete_to_complete_dialogue_labels := ?I(?k \<mapsto> C)\<rparr>"
    | (both) "snd (private_create reg L r (Some C))
              = reg\<lparr>incomplete_to_complete_dialogue_labels := ?I(?k \<mapsto> C),
                    dialogues_by_dialogue_label := ?B(label_key C \<mapsto> Dialogue_init C a r)\<rparr>"
    by blast
  then show ?thesis
  proof cases
    case same
    with inv show ?thesis by simp
  next
    case entry
    from maps_inv_entry [OF m kB entry(1) f s a] entry(2) adr
    show ?thesis by (simp add: registry_inv_def)
  next
    case both
    let ?B' = "?B(label_key C \<mapsto> Dialogue_init C a r)"
    have "maps_inv a ?B' ?I"
      using m CI s a by (intro maps_inv_store) simp_all
    moreover have "?k \<notin> dom ?B'" using kB kC by simp
    moreover have "label_key C \<in> dom ?B'" by simp
    ultimately have "maps_inv a ?B' (?I(?k \<mapsto> C))"
      using f s a by (intro maps_inv_entry)
    with both adr show ?thesis by (simp add: registry_inv_def)
  qed
qed

lemma complete_dialogue_reference_inv:
  assumes inv: "registry_inv a reg"
  shows "registry_inv a (snd (complete_dialogue_reference reg m))"
proof -
  let ?B = "dialogues_by_dialogue_label reg"
  let ?I = "incomplete_to_complete_dialogue_labels reg"
  from inv have adr: "registry_agent_address reg = a" and mi: "maps_inv a ?B ?I"
    by (simp_all add: registry_inv_def)
  have "snd (complete_dialogue_reference reg m) = reg
     \<or> (\<exists>s d. sender m = Some s \<and> sval a \<noteq> []
           \<and> fst (dialogue_reference m) \<noteq> [] \<and> snd (dialogue_reference m) \<noteq> []
           \<and> ?B (label_key \<lparr> label_dialogue_reference = (fst (dialogue_reference m), []),
                   dialogue_opponent_addr = s, dialogue_starter_addr = a \<rparr>) = Some d
           \<and> label_key \<lparr> label_dialogue_reference = (fst (dialogue_reference m), []),
                   dialogue_opponent_addr = s, dialogue_starter_addr = a \<rparr> \<notin> dom ?I
           \<and> (snd (complete_dialogue_reference reg m)
                 = reg\<lparr>dialogues_by_dialogue_label :=
                         ?B(label_key \<lparr> label_dialogue_reference = (fst (dialogue_reference m), []),
                   dialogue_opponent_addr = s, dialogue_starter_addr = a \<rparr> := None)\<rparr>
               \<or> snd (complete_dialogue_reference reg m)
                 = reg\<lparr>dialogues_by_dialogue_label :=
                         (?B(label_key \<lparr> label_dialogue_reference = (fst (dialogue_reference m), []),
                   dialogue_opponent_addr = s, dialogue_starter_addr = a \<rparr> := None))
                           (label_key \<lparr> label_dialogue_reference = dialogue_reference m,
                   dialogue_opponent_addr = s, dialogue_starter_addr = a \<rparr>
                            \<mapsto> d\<lparr>dialogue_label := \<lparr> label_dialogue_reference = dialogue_reference m,
                   dialogue_opponent_addr = s, dialogue_starter_addr = a \<rparr>\<rparr>),
                       incomplete_to_complete_dialogue_labels :=
                         ?I(label_key \<lparr> label_dialogue_reference = (fst (dialogue_reference m), []),
                   dialogue_opponent_addr = s, dialogue_starter_addr = a \<rparr>
                            \<mapsto> \<lparr> label_dialogue_reference = dialogue_reference m,
                   dialogue_opponent_addr = s, dialogue_starter_addr = a \<rparr>)\<rparr>))"
    unfolding complete_dialogue_reference_def Let_def Dialogues_agent_address_def
      get_sender_def update_dialogue_label_def UNASSIGNED_DIALOGUE_REFERENCE_def
    by (auto simp: adr split: if_splits option.splits)
  then show ?thesis
  proof
    assume "snd (complete_dialogue_reference reg m) = reg"
    with inv show ?thesis by simp
  next
    assume "\<exists>s d. sender m = Some s \<and> sval a \<noteq> []
           \<and> fst (dialogue_reference m) \<noteq> [] \<and> snd (dialogue_reference m) \<noteq> []
           \<and> ?B (label_key \<lparr> label_dialogue_reference = (fst (dialogue_reference m), []),
                   dialogue_opponent_addr = s, dialogue_starter_addr = a \<rparr>) = Some d
           \<and> label_key \<lparr> label_dialogue_reference = (fst (dialogue_reference m), []),
                   dialogue_opponent_addr = s, dialogue_starter_addr = a \<rparr> \<notin> dom ?I
           \<and> (snd (complete_dialogue_reference reg m)
                 = reg\<lparr>dialogues_by_dialogue_label :=
                         ?B(label_key \<lparr> label_dialogue_reference = (fst (dialogue_reference m), []),
                   dialogue_opponent_addr = s, dialogue_starter_addr = a \<rparr> := None)\<rparr>
               \<or> snd (complete_dialogue_reference reg m)
                 = reg\<lparr>dialogues_by_dialogue_label :=
                         (?B(label_key \<lparr> label_dialogue_reference = (fst (dialogue_reference m), []),
                   dialogue_opponent_addr = s, dialogue_starter_addr = a \<rparr> := None))
                           (label_key \<lparr> label_dialogue_reference = dialogue_reference m,
                   dialogue_opponent_addr = s, dialogue_starter_addr = a \<rparr>
                            \<mapsto> d\<lparr>dialogue_label := \<lparr> label_dialogue_reference = dialogue_reference m,
                   dialogue_opponent_addr = s, dialogue_starter_addr = a \<rparr>\<rparr>),
                       incomplete_to_complete_dialogue_labels :=
                         ?I(label_key \<lparr> label_dialogue_reference = (fst (dialogue_reference m), []),
                   dialogue_opponent_addr = s, dialogue_starter_addr = a \<rparr>
                            \<mapsto> \<lparr> label_dialogue_reference = dialogue_reference m,
                   dialogue_opponent_addr = s, dialogue_starter_addr = a \<rparr>)\<rparr>)"
    then obtain s d where a: "sval a \<noteq> []"
      and f: "fst (dialogue_reference m) \<noteq> []" and sn: "snd (dialogue_reference m) \<noteq> []"
      and res: "snd (complete_dialogue_reference reg m)
                 = reg\<lparr>dialogues_by_dialogue_label :=
                         ?B(label_key \<lparr> label_dialogue_reference = (fst (dialogue_reference m), []),
                   dialogue_opponent_addr = s, dialogue_starter_addr = a \<rparr> := None)\<rparr>
               \<or> snd (complete_dialogue_reference reg m)
                 = reg\<lparr>dialogues_by_dialogue_label :=
                         (?B(label_key \<lparr> label_dialogue_reference = (fst (dialogue_reference m), []),
                   dialogue_opponent_addr = s, dialogue_starter_addr = a \<rparr> := None))
                           (label_key \<lparr> label_dialogue_reference = dialogue_reference m,
                   dialogue_opponent_addr = s, dialogue_starter_addr = a \<rparr>
                            \<mapsto> d\<lparr>dialogue_label := \<lparr> label_dialogue_reference = dialogue_reference m,
                   dialogue_opponent_addr = s, dialogue_starter_addr = a \<rparr>\<rparr>),
                       incomplete_to_complete_dialogue_labels :=
                         ?I(label_key \<lparr> label_dialogue_reference = (fst (dialogue_reference m), []),
                   dialogue_opponent_addr = s, dialogue_starter_addr = a \<rparr>
                            \<mapsto> \<lparr> label_dialogue_reference = dialogue_reference m,
                   dialogue_opponent_addr = s, dialogue_starter_addr = a \<rparr>)\<rparr>"
      by blast
    let ?F = "\<lparr> label_dialogue_reference = dialogue_reference m,
                   dialogue_opponent_addr = s, dialogue_starter_addr = a \<rparr>"
    let ?k = "label_key \<lparr> label_dialogue_reference = (fst (dialogue_reference m), []),
                   dialogue_opponent_addr = s, dialogue_starter_addr = a \<rparr>"
    have kF: "?k = label_key (get_incomplete_version ?F)"
      by (simp add: label_key_def)
    have k0: "snd (fst ?k) = []" by simp
    have m1: "maps_inv a (?B(?k := None)) ?I"
      using mi k0 a by (rule maps_inv_remove)
    have FI: "label_key ?F \<notin> dom ?I"
    proof
      assume "label_key ?F \<in> dom ?I"
      then obtain C' where "?I (label_key ?F) = Some C'" by auto
      from maps_invD(2) [OF mi this] sn show False by simp
    qed
    have kne: "?k \<noteq> label_key ?F"
    proof
      assume "?k = label_key ?F"
      then have "fst ?k = fst (label_key ?F)" by simp
      with sn show False by (simp add: prod_eq_iff)
    qed
    let ?B2 = "(?B(?k := None))(label_key ?F \<mapsto> d\<lparr>dialogue_label := ?F\<rparr>)"
    have "maps_inv a ?B2 ?I"
      using m1 FI sn a by (intro maps_inv_store) simp_all
    moreover have "label_key (get_incomplete_version ?F) \<notin> dom ?B2"
      using kne unfolding kF [symmetric] by simp
    moreover have "label_key ?F \<in> dom ?B2" by simp
    ultimately have m2: "maps_inv a ?B2 (?I(label_key (get_incomplete_version ?F) \<mapsto> ?F))"
      using f sn a by (intro maps_inv_entry) simp_all
    from res show ?thesis
    proof
      assume "snd (complete_dialogue_reference reg m)
                 = reg\<lparr>dialogues_by_dialogue_label := ?B(?k := None)\<rparr>"
      with m1 adr show ?thesis by (simp add: registry_inv_def)
    next
      assume "snd (complete_dialogue_reference reg m)
                 = reg\<lparr>dialogues_by_dialogue_label := ?B2,
                       incomplete_to_complete_dialogue_labels := ?I(?k \<mapsto> ?F)\<rparr>"
      with m2 adr show ?thesis unfolding kF [symmetric] by (simp add: registry_inv_def)
    qed
  qed
qed

lemma get_dialogue_ref_stored:
  assumes "get_dialogue_ref reg m = Inr (Some (k, d))"
  shows "dialogues_by_dialogue_label reg k = Some d"
  using assms
  unfolding get_dialogue_ref_def get_dialogue_from_label_def Let_def
  by (auto split: sum.splits option.splits if_splits)

lemma private_create_stored:
  assumes "private_create reg L r c = (Inr d, reg1)"
  shows "dialogues_by_dialogue_label reg1 (label_key (dialogue_label d)) = Some d"
  using private_create_Inr [OF assms]
  by (cases c) (auto simp: Dialogue_init_def)

lemma update_tail_shape:
  assumes "dialogues_by_dialogue_label reg' k = Some d"
  shows "snd (case Dialogue_update P d m of
               Inl (InvalidDialogueMessage e) \<Rightarrow> (Inr None, reg')
             | Inl e \<Rightarrow> (Inl e, reg')
             | Inr dialogue' \<Rightarrow>
                 (Inr (Some dialogue'),
                  reg'\<lparr>dialogues_by_dialogue_label :=
                        (dialogues_by_dialogue_label reg')(k \<mapsto> dialogue')\<rparr>)) = reg'
       \<or> (\<exists>k' d0 d'. dialogues_by_dialogue_label reg' k' = Some d0
              \<and> Dialogue_update P d0 m = Inr d'
              \<and> snd (case Dialogue_update P d m of
               Inl (InvalidDialogueMessage e) \<Rightarrow> (Inr None, reg')
             | Inl e \<Rightarrow> (Inl e, reg')
             | Inr dialogue' \<Rightarrow>
                 (Inr (Some dialogue'),
                  reg'\<lparr>dialogues_by_dialogue_label :=
                        (dialogues_by_dialogue_label reg')(k \<mapsto> dialogue')\<rparr>))
                  = reg'\<lparr>dialogues_by_dialogue_label :=
                          (dialogues_by_dialogue_label reg')(k' \<mapsto> d')\<rparr>)"
proof (cases "Dialogue_update P d m")
  case (Inl e)
  then show ?thesis by (cases e) simp_all
next
  case (Inr d')
  have "snd (case Dialogue_update P d m of
               Inl (InvalidDialogueMessage e) \<Rightarrow> (Inr None, reg')
             | Inl e \<Rightarrow> (Inl e, reg')
             | Inr dialogue' \<Rightarrow>
                 (Inr (Some dialogue'),
                  reg'\<lparr>dialogues_by_dialogue_label :=
                        (dialogues_by_dialogue_label reg')(k \<mapsto> dialogue')\<rparr>))
         = reg'\<lparr>dialogues_by_dialogue_label :=
                          (dialogues_by_dialogue_label reg')(k \<mapsto> d')\<rparr>"
    by (simp add: Inr)
  with assms Inr show ?thesis by blast
qed

lemma Dialogues_update_shape:
  "\<exists>reg1.
     (reg1 = reg
      \<or> (\<exists>s. sender m = Some s \<and> sval s \<noteq> sval (registry_agent_address reg)
            \<and> sval (registry_agent_address reg) \<noteq> []
            \<and> fst (dialogue_reference m) \<noteq> [] \<and> snd (dialogue_reference m) = []
            \<and> reg1 = snd (private_create reg
                 \<lparr> label_dialogue_reference = dialogue_reference m,
                   dialogue_opponent_addr = s, dialogue_starter_addr = s \<rparr>
                 (role_from_first_message P m)
                 (Some \<lparr> label_dialogue_reference = (fst (dialogue_reference m), nonce),
                   dialogue_opponent_addr = s, dialogue_starter_addr = s \<rparr>)))
      \<or> reg1 = snd (complete_dialogue_reference reg m))
     \<and> (snd (Dialogues_update P reg nonce m) = reg1
        \<or> (\<exists>k d0 d'. dialogues_by_dialogue_label reg1 k = Some d0
              \<and> Dialogue_update P d0 m = Inr d'
              \<and> snd (Dialogues_update P reg nonce m)
                  = reg1\<lparr>dialogues_by_dialogue_label :=
                          (dialogues_by_dialogue_label reg1)(k \<mapsto> d')\<rparr>))"
proof (cases "Dialogues_is_message_by_other reg m = Inr True \<and> has_to m")
  case False
  then have "snd (Dialogues_update P reg nonce m) = reg"
    unfolding Dialogues_update_def by (auto split: sum.splits)
  then show ?thesis by blast
next
  case True
  then obtain s where s: "sender m = Some s" "sval s \<noteq> sval (registry_agent_address reg)"
    "sval (registry_agent_address reg) \<noteq> []"
    unfolding Dialogues_is_message_by_other_def Dialogues_is_message_by_self_def
      get_sender_def Dialogues_agent_address_def
    by (auto split: sum.splits option.splits if_splits)
  let ?ref = "dialogue_reference m"
  consider (invalid) "fst ?ref = [] \<and> snd ?ref = []"
    | (new) "\<not> (fst ?ref = [] \<and> snd ?ref = [])" "fst ?ref \<noteq> [] \<and> snd ?ref = [] \<and> message_id m = 1"
    | (cont) "\<not> (fst ?ref = [] \<and> snd ?ref = [])" "\<not> (fst ?ref \<noteq> [] \<and> snd ?ref = [] \<and> message_id m = 1)"
    by blast
  then show ?thesis
  proof cases
    case invalid
    with True have "snd (Dialogues_update P reg nonce m) = reg"
      unfolding Dialogues_update_def Let_def UNASSIGNED_DIALOGUE_REFERENCE_def by simp
    then show ?thesis by blast
  next
    case new
    let ?L = "\<lparr> label_dialogue_reference = ?ref,
                   dialogue_opponent_addr = s, dialogue_starter_addr = s \<rparr>"
    let ?C = "\<lparr> label_dialogue_reference = (fst ?ref, nonce),
                   dialogue_opponent_addr = s, dialogue_starter_addr = s \<rparr>"
    let ?pc = "private_create reg ?L (role_from_first_message P m) (Some ?C)"
    have co: "create_opponent_initiated reg nonce s ?ref (role_from_first_message P m) = ?pc"
      using new unfolding create_opponent_initiated_def Let_def UNASSIGNED_DIALOGUE_REFERENCE_def
      by simp
    have upd: "Dialogues_update P reg nonce m =
       (case ?pc of
          (Inl e, reg') \<Rightarrow> (Inl e, reg')
        | (Inr d, reg') \<Rightarrow>
            (case Dialogue_update P d m of
               Inl (InvalidDialogueMessage e) \<Rightarrow> (Inr None, reg')
             | Inl e \<Rightarrow> (Inl e, reg')
             | Inr dialogue' \<Rightarrow>
                 (Inr (Some dialogue'),
                  reg'\<lparr>dialogues_by_dialogue_label :=
                        (dialogues_by_dialogue_label reg')(label_key (dialogue_label d) \<mapsto> dialogue')\<rparr>)))"
      using True new s unfolding Dialogues_update_def Let_def UNASSIGNED_DIALOGUE_REFERENCE_def
        get_sender_def co [symmetric]
      by (auto split: prod.splits sum.splits)
    have "snd (Dialogues_update P reg nonce m) = snd ?pc
        \<or> (\<exists>k d0 d'. dialogues_by_dialogue_label (snd ?pc) k = Some d0
              \<and> Dialogue_update P d0 m = Inr d'
              \<and> snd (Dialogues_update P reg nonce m)
                  = (snd ?pc)\<lparr>dialogues_by_dialogue_label :=
                          (dialogues_by_dialogue_label (snd ?pc))(k \<mapsto> d')\<rparr>)"
    proof (cases ?pc)
      case (Pair res reg')
      show ?thesis
      proof (cases res)
        case (Inl e)
        with Pair show ?thesis unfolding upd by simp
      next
        case (Inr d)
        from private_create_stored [OF Pair [unfolded Inr]]
        have "dialogues_by_dialogue_label reg' (label_key (dialogue_label d)) = Some d" .
        from update_tail_shape [OF this, where P = P and m = m] Pair Inr
        show ?thesis unfolding upd by simp
      qed
    qed
    with s new show ?thesis by blast
  next
    case cont
    let ?cd = "complete_dialogue_reference reg m"
    have upd: "Dialogues_update P reg nonce m =
       (case ?cd of
          (Inl e, reg') \<Rightarrow> (Inl e, reg')
        | (Inr u, reg') \<Rightarrow>
            (case get_dialogue_ref reg' m of
               Inl e \<Rightarrow> (Inl e, reg')
             | Inr None \<Rightarrow> (Inr None, reg')
             | Inr (Some (k, d)) \<Rightarrow>
                (case Dialogue_update P d m of
                   Inl (InvalidDialogueMessage e) \<Rightarrow> (Inr None, reg')
                 | Inl e \<Rightarrow> (Inl e, reg')
                 | Inr dialogue' \<Rightarrow>
                     (Inr (Some dialogue'),
                      reg'\<lparr>dialogues_by_dialogue_label :=
                            (dialogues_by_dialogue_label reg')(k \<mapsto> dialogue')\<rparr>))))"
      using True cont unfolding Dialogues_update_def Let_def UNASSIGNED_DIALOGUE_REFERENCE_def
      by (auto split: prod.splits sum.splits option.splits)
    have "snd (Dialogues_update P reg nonce m) = snd ?cd
        \<or> (\<exists>k d0 d'. dialogues_by_dialogue_label (snd ?cd) k = Some d0
              \<and> Dialogue_update P d0 m = Inr d'
              \<and> snd (Dialogues_update P reg nonce m)
                  = (snd ?cd)\<lparr>dialogues_by_dialogue_label :=
                          (dialogues_by_dialogue_label (snd ?cd))(k \<mapsto> d')\<rparr>)"
    proof (cases ?cd)
      case (Pair res reg')
      show ?thesis
      proof (cases res)
        case (Inl e)
        with Pair show ?thesis unfolding upd by simp
      next
        case (Inr u)
        show ?thesis
        proof (cases "get_dialogue_ref reg' m")
          case (Inl e)
          with Pair Inr show ?thesis unfolding upd by simp
        next
          case gd: (Inr found)
          show ?thesis
          proof (cases found)
            case None
            with Pair Inr gd show ?thesis unfolding upd by simp
          next
            case (Some kd)
            obtain k d where kd: "kd = (k, d)" by (cases kd)
            from get_dialogue_ref_stored [OF gd [unfolded Some kd]]
            have "dialogues_by_dialogue_label reg' k = Some d" .
            from update_tail_shape [OF this, where P = P and m = m] Pair Inr gd Some kd
            show ?thesis unfolding upd by simp
          qed
        qed
      qed
    qed
    then show ?thesis by blast
  qed
qed

lemma Dialogues_update_inv:
  assumes inv: "registry_inv a reg" and n: "nonce \<noteq> [] \<or> snd (dialogue_reference m) \<noteq> []"
  shows "registry_inv a (snd (Dialogues_update P reg nonce m))"
proof -
  from inv have adr: "registry_agent_address reg = a" by (simp add: registry_inv_def)
  from Dialogues_update_shape [where reg = reg and m = m and P = P and nonce = nonce] obtain reg1 where
    r1: "reg1 = reg
      \<or> (\<exists>s. sender m = Some s \<and> sval s \<noteq> sval (registry_agent_address reg)
            \<and> sval (registry_agent_address reg) \<noteq> []
            \<and> fst (dialogue_reference m) \<noteq> [] \<and> snd (dialogue_reference m) = []
            \<and> reg1 = snd (private_create reg
                 \<lparr> label_dialogue_reference = dialogue_reference m,
                   dialogue_opponent_addr = s, dialogue_starter_addr = s \<rparr>
                 (role_from_first_message P m)
                 (Some \<lparr> label_dialogue_reference = (fst (dialogue_reference m), nonce),
                   dialogue_opponent_addr = s, dialogue_starter_addr = s \<rparr>)))
      \<or> reg1 = snd (complete_dialogue_reference reg m)"
    and fin: "snd (Dialogues_update P reg nonce m) = reg1
        \<or> (\<exists>k d'. k \<in> dom (dialogues_by_dialogue_label reg1)
              \<and> snd (Dialogues_update P reg nonce m)
                  = reg1\<lparr>dialogues_by_dialogue_label :=
                          (dialogues_by_dialogue_label reg1)(k \<mapsto> d')\<rparr>)"
    by blast
  from r1 have "registry_inv a reg1"
  proof (elim disjE exE conjE)
    assume "reg1 = reg" with inv show ?thesis by simp
  next
    fix s
    assume s: "sval s \<noteq> sval (registry_agent_address reg)"
      "sval (registry_agent_address reg) \<noteq> []"
      "fst (dialogue_reference m) \<noteq> []" "snd (dialogue_reference m) = []"
      and e: "reg1 = snd (private_create reg
                 \<lparr> label_dialogue_reference = dialogue_reference m,
                   dialogue_opponent_addr = s, dialogue_starter_addr = s \<rparr>
                 (role_from_first_message P m)
                 (Some \<lparr> label_dialogue_reference = (fst (dialogue_reference m), nonce),
                   dialogue_opponent_addr = s, dialogue_starter_addr = s \<rparr>))"
    show ?thesis unfolding e
    proof (rule private_create_Some_inv [OF inv])
      show "label_key \<lparr> label_dialogue_reference = dialogue_reference m,
                   dialogue_opponent_addr = s, dialogue_starter_addr = s \<rparr>
          = label_key (get_incomplete_version
               \<lparr> label_dialogue_reference = (fst (dialogue_reference m), nonce),
                   dialogue_opponent_addr = s, dialogue_starter_addr = s \<rparr>)"
        using s(4) by (simp add: label_key_def prod_eq_iff)
    qed (use s n adr in simp_all)
  next
    assume "reg1 = snd (complete_dialogue_reference reg m)"
    with complete_dialogue_reference_inv [OF inv] show ?thesis by simp
  qed
  then have i1: "registry_inv a reg1" .
  from fin show ?thesis
  proof
    assume "snd (Dialogues_update P reg nonce m) = reg1"
    with i1 show ?thesis by simp
  next
    assume "\<exists>k d'. k \<in> dom (dialogues_by_dialogue_label reg1)
              \<and> snd (Dialogues_update P reg nonce m)
                  = reg1\<lparr>dialogues_by_dialogue_label :=
                          (dialogues_by_dialogue_label reg1)(k \<mapsto> d')\<rparr>"
    then obtain k d' where k: "k \<in> dom (dialogues_by_dialogue_label reg1)"
      and e: "snd (Dialogues_update P reg nonce m)
                  = reg1\<lparr>dialogues_by_dialogue_label :=
                          (dialogues_by_dialogue_label reg1)(k \<mapsto> d')\<rparr>" by blast
    show ?thesis unfolding e using i1 k by (rule registry_inv_overwrite)
  qed
qed

lemma Dialogues_create_inv:
  fixes P :: "('p, 'c, 'r) protocol"
  assumes inv: "registry_inv a reg"
  shows "registry_inv a (snd (Dialogues_create P reg nonce cp perf kwargs))"
proof (cases "sval (registry_agent_address reg) = []")
  case True
  from Dialogues_create_no_address [OF True] inv show ?thesis by simp
next
  case False
  from inv have adr: "registry_agent_address reg = a" and mi: "maps_inv a (dialogues_by_dialogue_label reg) (incomplete_to_complete_dialogue_labels reg)"
    by (simp_all add: registry_inv_def)
  from False adr have a: "sval a \<noteq> []" by simp
  let ?m0 = "initial_message (registry_agent_address reg) nonce cp perf kwargs :: ('p, 'c) Message"
  let ?L = "\<lparr> label_dialogue_reference = (nonce, []), dialogue_opponent_addr = cp,
              dialogue_starter_addr = a \<rparr>"
  let ?cs = "create_self_initiated reg cp (nonce, []) (role_from_first_message P ?m0)"
  have cs: "?cs = (if nonce = [] then (Inl (AssertionError
                   ''Cannot initiate dialogue with preassigned dialogue_responder_reference!''), reg)
                   else private_create reg ?L (role_from_first_message P ?m0) None)"
    using False by (simp add: create_self_initiated_def Dialogues_agent_address_def adr
        UNASSIGNED_DIALOGUE_REFERENCE_def)
  have inv1: "registry_inv a (snd ?cs)"
    unfolding cs using inv private_create_None_inv [OF inv, of ?L] by simp
  show ?thesis
  proof (cases ?cs)
    case (Pair res reg1)
    with inv1 have i1: "registry_inv a reg1" by simp
    show ?thesis
    proof (cases res)
      case (Inl e)
      with Pair i1 show ?thesis unfolding Dialogues_create_unfold [OF False] Let_def by simp
    next
      case (Inr d0)
      from create_self_initiated_Inr [OF Pair [unfolded Inr]]
      have lab: "dialogue_label d0 = ?L"
        and st: "dialogues_by_dialogue_label reg1 (label_key (dialogue_label d0)) = Some d0"
        by (simp_all add: adr Dialogue_init_def)
      then have dom: "label_key (dialogue_label d0) \<in> dom (dialogues_by_dialogue_label reg1)"
        by auto
      show ?thesis
      proof (cases "Dialogue_update P d0 ?m0")
        case up: (Inl e)
        have rem: "registry_inv a (reg1\<lparr>dialogues_by_dialogue_label :=
                           (dialogues_by_dialogue_label reg1)
                             (label_key (dialogue_label d0) := None)\<rparr>)"
          using i1 a by (simp add: registry_inv_def lab maps_inv_remove)
        from up Pair Inr i1 rem show ?thesis
          unfolding Dialogues_create_unfold [OF False] Let_def
          by (cases e) (simp_all add: dom)
      next
        case up: (Inr d')
        from registry_inv_overwrite [OF i1 dom, of d'] up Pair Inr show ?thesis
          unfolding Dialogues_create_unfold [OF False] Let_def by simp
      qed
    qed
  qed
qed

lemma nonce_not_empty: "is_nonce n \<Longrightarrow> n \<noteq> []"
  by (auto simp: is_nonce_def NONCE_BYTES_NB_def)

lemma registry_inv_reachable:
  assumes "registry_reachable P a reg"
  shows "registry_inv a reg"
  using assms
proof (induction rule: registry_reachable.induct)
  case rr_init
  show ?case by (simp add: registry_inv_def Dialogues_init_def maps_inv_empty)
next
  case (rr_create reg nonce counterparty perf kwargs)
  then show ?case by (simp add: Dialogues_create_inv)
next
  case (rr_update reg nonce m)
  then show ?case by (simp add: Dialogues_update_inv nonce_not_empty)
next
  case (rr_reply reg k d target_message perf kwargs rm d')
  from rr_reply.hyps(2) have "k \<in> dom (dialogues_by_dialogue_label reg)" by auto
  with rr_reply.IH show ?case by (rule registry_inv_overwrite)
next
  case (rr_dialogue_update reg k d m d')
  from rr_dialogue_update.hyps(2) have "k \<in> dom (dialogues_by_dialogue_label reg)" by auto
  with rr_dialogue_update.IH show ?case by (rule registry_inv_overwrite)
qed

lemma private_create_keeps:
  assumes "incomplete_to_complete_dialogue_labels reg k = Some C"
  shows "incomplete_to_complete_dialogue_labels (snd (private_create reg L r c)) k = Some C"
  using assms unfolding private_create_def Let_def
  by (cases c) (auto split: if_splits sum.splits)

lemma complete_dialogue_reference_keeps:
  assumes "incomplete_to_complete_dialogue_labels reg k = Some C"
  shows "incomplete_to_complete_dialogue_labels (snd (complete_dialogue_reference reg m)) k = Some C"
  using assms unfolding complete_dialogue_reference_def Let_def
  by (auto split: if_splits sum.splits option.splits)

lemma Dialogues_update_keeps:
  assumes e: "incomplete_to_complete_dialogue_labels reg k = Some C"
  shows "incomplete_to_complete_dialogue_labels (snd (Dialogues_update P reg nonce m)) k = Some C"
proof -
  from Dialogues_update_shape [where reg = reg and m = m and P = P and nonce = nonce] obtain reg1 where
    r1: "reg1 = reg
      \<or> (\<exists>s. sender m = Some s \<and> sval s \<noteq> sval (registry_agent_address reg)
            \<and> sval (registry_agent_address reg) \<noteq> []
            \<and> fst (dialogue_reference m) \<noteq> [] \<and> snd (dialogue_reference m) = []
            \<and> reg1 = snd (private_create reg
                 \<lparr> label_dialogue_reference = dialogue_reference m,
                   dialogue_opponent_addr = s, dialogue_starter_addr = s \<rparr>
                 (role_from_first_message P m)
                 (Some \<lparr> label_dialogue_reference = (fst (dialogue_reference m), nonce),
                   dialogue_opponent_addr = s, dialogue_starter_addr = s \<rparr>)))
      \<or> reg1 = snd (complete_dialogue_reference reg m)"
    and fin: "snd (Dialogues_update P reg nonce m) = reg1
        \<or> (\<exists>k d'. k \<in> dom (dialogues_by_dialogue_label reg1)
              \<and> snd (Dialogues_update P reg nonce m)
                  = reg1\<lparr>dialogues_by_dialogue_label :=
                          (dialogues_by_dialogue_label reg1)(k \<mapsto> d')\<rparr>)"
    by blast
  from r1 have "incomplete_to_complete_dialogue_labels reg1 k = Some C"
    using e private_create_keeps [OF e] complete_dialogue_reference_keeps [OF e] by auto
  with fin show ?thesis by auto
qed

lemma Dialogues_create_keeps:
  "incomplete_to_complete_dialogue_labels (snd (Dialogues_create P reg nonce cp perf kwargs))
     = incomplete_to_complete_dialogue_labels reg"
  unfolding Dialogues_create_def create_self_initiated_def private_create_def Let_def
  by (auto split: sum.splits if_splits prod.splits error.splits)

lemma Dialogue_update_agent:
  assumes "Dialogue_update P d m = Inr d'"
  shows "agent_address d' = agent_address d"
  using Dialogue_update_accepted(5) [OF assms] by auto

lemma ownedD:
  assumes "dialogues_owned a reg" and "dialogues_by_dialogue_label reg k = Some d"
  shows "agent_address d = a"
  using assms unfolding dialogues_owned_def by blast

lemma owned_address:
  assumes "dialogues_owned a reg"
  shows "registry_agent_address reg = a"
  using assms unfolding dialogues_owned_def by blast

lemma ownedI:
  assumes "registry_agent_address reg = a"
    and "\<And>k d. dialogues_by_dialogue_label reg k = Some d \<Longrightarrow> agent_address d = a"
  shows "dialogues_owned a reg"
  using assms unfolding dialogues_owned_def by blast

lemma owned_overwrite:
  assumes own: "dialogues_owned a reg" and d': "agent_address d' = a"
  shows "dialogues_owned a
           (reg\<lparr>dialogues_by_dialogue_label := (dialogues_by_dialogue_label reg)(k \<mapsto> d')\<rparr>)"
proof (rule ownedI)
  show "registry_agent_address
          (reg\<lparr>dialogues_by_dialogue_label := (dialogues_by_dialogue_label reg)(k \<mapsto> d')\<rparr>) = a"
    using owned_address [OF own] by simp
next
  fix k' d
  assume "dialogues_by_dialogue_label
            (reg\<lparr>dialogues_by_dialogue_label := (dialogues_by_dialogue_label reg)(k \<mapsto> d')\<rparr>) k'
          = Some d"
  then have "d = d' \<or> dialogues_by_dialogue_label reg k' = Some d"
    by (auto split: if_splits)
  with d' ownedD [OF own] show "agent_address d = a" by blast
qed

lemma owned_remove:
  assumes own: "dialogues_owned a reg"
  shows "dialogues_owned a
           (reg\<lparr>dialogues_by_dialogue_label := (dialogues_by_dialogue_label reg)(k := None)\<rparr>)"
proof (rule ownedI)
  show "registry_agent_address
          (reg\<lparr>dialogues_by_dialogue_label := (dialogues_by_dialogue_label reg)(k := None)\<rparr>) = a"
    using owned_address [OF own] by simp
next
  fix k' d
  assume "dialogues_by_dialogue_label
            (reg\<lparr>dialogues_by_dialogue_label := (dialogues_by_dialogue_label reg)(k := None)\<rparr>) k'
          = Some d"
  then have "dialogues_by_dialogue_label reg k' = Some d"
    by (auto split: if_splits)
  with ownedD [OF own] show "agent_address d = a" by blast
qed

lemma private_create_stored_from:
  assumes "dialogues_by_dialogue_label (snd (private_create reg L r c)) k = Some d"
  shows "dialogues_by_dialogue_label reg k = Some d
       \<or> agent_address d = registry_agent_address reg"
  using assms unfolding private_create_def Let_def Dialogues_agent_address_def
  by (cases c) (auto simp: Dialogue_init_def split: if_splits)

lemma private_create_address:
  "registry_agent_address (snd (private_create reg L r c)) = registry_agent_address reg"
  unfolding private_create_def Let_def Dialogues_agent_address_def
  by (cases c) (auto split: if_splits)

lemma owned_private_create:
  assumes own: "dialogues_owned a reg"
  shows "dialogues_owned a (snd (private_create reg L r c))"
proof (rule ownedI)
  show "registry_agent_address (snd (private_create reg L r c)) = a"
    using owned_address [OF own] by (simp add: private_create_address)
next
  fix k d assume "dialogues_by_dialogue_label (snd (private_create reg L r c)) k = Some d"
  from private_create_stored_from [OF this] ownedD [OF own] owned_address [OF own]
  show "agent_address d = a" by metis
qed

lemma complete_dialogue_reference_stored_from:
  assumes "dialogues_by_dialogue_label (snd (complete_dialogue_reference reg m)) k = Some d"
  shows "\<exists>d0 \<in> ran (dialogues_by_dialogue_label reg). agent_address d = agent_address d0"
  using assms unfolding complete_dialogue_reference_def Let_def Dialogues_agent_address_def
    update_dialogue_label_def
  by (auto split: if_splits sum.splits option.splits intro: ranI)

lemma complete_dialogue_reference_address:
  "registry_agent_address (snd (complete_dialogue_reference reg m)) = registry_agent_address reg"
  unfolding complete_dialogue_reference_def Let_def Dialogues_agent_address_def
    update_dialogue_label_def
  by (auto split: if_splits sum.splits option.splits)

lemma owned_complete_dialogue_reference:
  assumes own: "dialogues_owned a reg"
  shows "dialogues_owned a (snd (complete_dialogue_reference reg m))"
proof (rule ownedI)
  show "registry_agent_address (snd (complete_dialogue_reference reg m)) = a"
    using owned_address [OF own] by (simp add: complete_dialogue_reference_address)
next
  fix k d
  assume "dialogues_by_dialogue_label (snd (complete_dialogue_reference reg m)) k = Some d"
  from complete_dialogue_reference_stored_from [OF this]
  obtain d0 where "d0 \<in> ran (dialogues_by_dialogue_label reg)"
    and e: "agent_address d = agent_address d0" by blast
  then obtain k0 where "dialogues_by_dialogue_label reg k0 = Some d0"
    unfolding ran_def by blast
  from ownedD [OF own this] e show "agent_address d = a" by simp
qed

lemma owned_Dialogues_update:
  assumes own: "dialogues_owned a reg"
  shows "dialogues_owned a (snd (Dialogues_update P reg nonce m))"
proof -
  from Dialogues_update_shape [where reg = reg and m = m and P = P and nonce = nonce]
  obtain reg1 where
    r1: "reg1 = reg
      \<or> (\<exists>s. reg1 = snd (private_create reg
                 \<lparr> label_dialogue_reference = dialogue_reference m,
                   dialogue_opponent_addr = s, dialogue_starter_addr = s \<rparr>
                 (role_from_first_message P m)
                 (Some \<lparr> label_dialogue_reference = (fst (dialogue_reference m), nonce),
                   dialogue_opponent_addr = s, dialogue_starter_addr = s \<rparr>)))
      \<or> reg1 = snd (complete_dialogue_reference reg m)"
    and fin: "snd (Dialogues_update P reg nonce m) = reg1
        \<or> (\<exists>k d0 d'. dialogues_by_dialogue_label reg1 k = Some d0
              \<and> Dialogue_update P d0 m = Inr d'
              \<and> snd (Dialogues_update P reg nonce m)
                  = reg1\<lparr>dialogues_by_dialogue_label :=
                          (dialogues_by_dialogue_label reg1)(k \<mapsto> d')\<rparr>)"
    by blast
  from r1 own have o1: "dialogues_owned a reg1"
    using owned_private_create [OF own] owned_complete_dialogue_reference [OF own] by auto
  from fin show ?thesis
  proof
    assume "snd (Dialogues_update P reg nonce m) = reg1"
    with o1 show ?thesis by simp
  next
    assume "\<exists>k d0 d'. dialogues_by_dialogue_label reg1 k = Some d0
              \<and> Dialogue_update P d0 m = Inr d'
              \<and> snd (Dialogues_update P reg nonce m)
                  = reg1\<lparr>dialogues_by_dialogue_label :=
                          (dialogues_by_dialogue_label reg1)(k \<mapsto> d')\<rparr>"
    then obtain k d0 d' where st: "dialogues_by_dialogue_label reg1 k = Some d0"
      and up: "Dialogue_update P d0 m = Inr d'"
      and e: "snd (Dialogues_update P reg nonce m)
                  = reg1\<lparr>dialogues_by_dialogue_label :=
                          (dialogues_by_dialogue_label reg1)(k \<mapsto> d')\<rparr>" by blast
    from ownedD [OF o1 st] have "agent_address d0 = a" .
    with Dialogue_update_agent [OF up] have "agent_address d' = a" by simp
    from owned_overwrite [OF o1 this] show ?thesis unfolding e .
  qed
qed

lemma owned_Dialogues_create:
  fixes P :: "('p, 'c, 'r) protocol"
  assumes own: "dialogues_owned a reg"
  shows "dialogues_owned a (snd (Dialogues_create P reg nonce cp perf kwargs))"
proof (cases "sval (registry_agent_address reg) = []")
  case True
  from Dialogues_create_no_address [OF True] own show ?thesis by simp
next
  case False
  let ?m0 = "initial_message (registry_agent_address reg) nonce cp perf kwargs :: ('p, 'c) Message"
  let ?cs = "create_self_initiated reg cp (nonce, []) (role_from_first_message P ?m0)"
  have "\<exists>L. snd ?cs = reg \<or> snd ?cs = snd (private_create reg L (role_from_first_message P ?m0) None)"
    unfolding create_self_initiated_def Dialogues_agent_address_def
    by (auto split: if_splits)
  with own owned_private_create [OF own] have o1: "dialogues_owned a (snd ?cs)" by auto
  show ?thesis
  proof (cases ?cs)
    case (Pair res reg1)
    with o1 have i1: "dialogues_owned a reg1" by simp
    show ?thesis
    proof (cases res)
      case (Inl e)
      with Pair i1 show ?thesis unfolding Dialogues_create_unfold [OF False] Let_def by simp
    next
      case (Inr d0)
      from create_self_initiated_Inr [OF Pair [unfolded Inr]] owned_address [OF own]
      have d0: "agent_address d0 = a"
        by (simp add: Dialogue_init_def)
      show ?thesis
      proof (cases "Dialogue_update P d0 ?m0")
        case up: (Inl e)
        have rem: "dialogues_owned a (reg1\<lparr>dialogues_by_dialogue_label :=
                           (dialogues_by_dialogue_label reg1)
                             (label_key (dialogue_label d0) := None)\<rparr>)"
          using i1 by (rule owned_remove)
        from up Pair Inr i1 rem show ?thesis
          unfolding Dialogues_create_unfold [OF False] Let_def
          by (cases e) (simp_all split: if_splits)
      next
        case up: (Inr d')
        from Dialogue_update_agent [OF up] d0 have "agent_address d' = a" by simp
        from owned_overwrite [OF i1 this] up Pair Inr show ?thesis
          unfolding Dialogues_create_unfold [OF False] Let_def by simp
      qed
    qed
  qed
qed

lemma owned_reachable:
  assumes "registry_reachable P a reg"
  shows "dialogues_owned a reg"
  using assms
proof (induction rule: registry_reachable.induct)
  case rr_init
  show ?case by (simp add: dialogues_owned_def Dialogues_init_def)
next
  case (rr_create reg nonce counterparty perf kwargs)
  then show ?case by (simp add: owned_Dialogues_create)
next
  case (rr_update reg nonce m)
  then show ?case by (simp add: owned_Dialogues_update)
next
  case (rr_reply reg k d target_message perf kwargs rm d')
  from rr_reply.hyps(3) obtain r where "Dialogue_update P d r = Inr d'"
    by (auto simp: reply_def Let_def split: option.splits sum.splits)
  from Dialogue_update_agent [OF this] ownedD [OF rr_reply.IH rr_reply.hyps(2)]
  have "agent_address d' = a" by simp
  from owned_overwrite [OF rr_reply.IH this] show ?case .
next
  case (rr_dialogue_update reg k d m d')
  from Dialogue_update_agent [OF rr_dialogue_update.hyps(3)]
    ownedD [OF rr_dialogue_update.IH rr_dialogue_update.hyps(2)]
  have "agent_address d' = a" by simp
  from owned_overwrite [OF rr_dialogue_update.IH this] show ?case .
qed

lemma Dialogues_update_not_inbound:
  assumes "\<not> (Dialogues_is_message_by_other reg m = Inr True \<and> has_to m)"
  shows "snd (Dialogues_update P reg nonce m) = reg"
  using assms unfolding Dialogues_update_def by (auto split: sum.splits)

lemma by_other_sender:
  assumes "Dialogues_is_message_by_other reg m = Inr True"
  shows "\<exists>s. sender m = Some s \<and> sval s \<noteq> sval (registry_agent_address reg)
            \<and> sval (registry_agent_address reg) \<noteq> []"
  using assms
  unfolding Dialogues_is_message_by_other_def Dialogues_is_message_by_self_def
    get_sender_def Dialogues_agent_address_def
  by (auto split: sum.splits option.splits if_splits)

lemma by_other_intro:
  assumes "sender m = Some s" and "sval s \<noteq> sval (registry_agent_address reg)"
    and "sval (registry_agent_address reg) \<noteq> []"
  shows "Dialogues_is_message_by_other reg m = Inr True"
  using assms
  by (simp add: Dialogues_is_message_by_other_def Dialogues_is_message_by_self_def
      get_sender_def Dialogues_agent_address_def)

lemma complete_dialogue_reference_promotion_map:
  "incomplete_to_complete_dialogue_labels (snd (complete_dialogue_reference reg m))
     = incomplete_to_complete_dialogue_labels reg
   \<or> (\<exists>s. sender m = Some s
        \<and> incomplete_to_complete_dialogue_labels (snd (complete_dialogue_reference reg m))
            = (incomplete_to_complete_dialogue_labels reg)
                (label_key \<lparr> label_dialogue_reference = (fst (dialogue_reference m), []),
                    dialogue_opponent_addr = s,
                    dialogue_starter_addr = registry_agent_address reg \<rparr>
                 \<mapsto> \<lparr> label_dialogue_reference = dialogue_reference m,
                    dialogue_opponent_addr = s,
                    dialogue_starter_addr = registry_agent_address reg \<rparr>))"
  unfolding complete_dialogue_reference_def Let_def Dialogues_agent_address_def
    get_sender_def update_dialogue_label_def UNASSIGNED_DIALOGUE_REFERENCE_def
  by (auto split: if_splits option.splits)

lemma update_entry_gained:
  assumes sn: "snd (dialogue_reference m) \<noteq> []"
    and none: "incomplete_to_complete_dialogue_labels reg k = None"
    and some: "incomplete_to_complete_dialogue_labels (snd (Dialogues_update P reg nonce m)) k
                 = Some C"
  shows "\<exists>s. sender m = Some s \<and> sval s \<noteq> sval (registry_agent_address reg)
           \<and> k = label_key \<lparr> label_dialogue_reference = (fst (dialogue_reference m), []),
                    dialogue_opponent_addr = s,
                    dialogue_starter_addr = registry_agent_address reg \<rparr>
           \<and> C = \<lparr> label_dialogue_reference = dialogue_reference m,
                    dialogue_opponent_addr = s,
                    dialogue_starter_addr = registry_agent_address reg \<rparr>"
proof -
  let ?I = "incomplete_to_complete_dialogue_labels"
  have inb: "Dialogues_is_message_by_other reg m = Inr True \<and> has_to m"
  proof (rule ccontr)
    assume "\<not> ?thesis"
    from Dialogues_update_not_inbound [OF this, of P nonce] none some show False by simp
  qed
  from by_other_sender inb obtain s where s: "sender m = Some s"
    "sval s \<noteq> sval (registry_agent_address reg)" by blast
  from Dialogues_update_shape [where reg = reg and m = m and P = P and nonce = nonce]
  obtain reg1 where
    r1: "reg1 = reg \<or> snd (dialogue_reference m) = []
           \<or> reg1 = snd (complete_dialogue_reference reg m)"
    and fin: "snd (Dialogues_update P reg nonce m) = reg1
        \<or> (\<exists>k d'. snd (Dialogues_update P reg nonce m)
                  = reg1\<lparr>dialogues_by_dialogue_label :=
                          (dialogues_by_dialogue_label reg1)(k \<mapsto> d')\<rparr>)"
    by blast
  from fin have "?I (snd (Dialogues_update P reg nonce m)) = ?I reg1" by auto
  with some have s1: "?I reg1 k = Some C" by simp
  with none r1 sn have r1': "reg1 = snd (complete_dialogue_reference reg m)" by auto
  from complete_dialogue_reference_promotion_map [of reg m] s1 none s(1)
  have "?I reg1 = (?I reg)
                (label_key \<lparr> label_dialogue_reference = (fst (dialogue_reference m), []),
                    dialogue_opponent_addr = s,
                    dialogue_starter_addr = registry_agent_address reg \<rparr>
                 \<mapsto> \<lparr> label_dialogue_reference = dialogue_reference m,
                    dialogue_opponent_addr = s,
                    dialogue_starter_addr = registry_agent_address reg \<rparr>)"
    unfolding r1' by auto
  with s1 none have "k = label_key \<lparr> label_dialogue_reference = (fst (dialogue_reference m), []),
                    dialogue_opponent_addr = s,
                    dialogue_starter_addr = registry_agent_address reg \<rparr>
           \<and> C = \<lparr> label_dialogue_reference = dialogue_reference m,
                    dialogue_opponent_addr = s,
                    dialogue_starter_addr = registry_agent_address reg \<rparr>"
    by (auto split: if_splits)
  with s show ?thesis by blast
qed

lemma promoted_message_routes:
  assumes inv: "registry_inv a reg" and own: "dialogues_owned a reg"
    and s: "sender m = Some s" "sval s \<noteq> sval a" and t: "has_to m"
    and e: "incomplete_to_complete_dialogue_labels reg
              (label_key \<lparr> label_dialogue_reference = (fst (dialogue_reference m), []),
                 dialogue_opponent_addr = s, dialogue_starter_addr = a \<rparr>) = Some C"
    and rc: "label_dialogue_reference C = dialogue_reference m"
  shows "routes_to P reg nonce m C
       \<and> incomplete_to_complete_dialogue_labels (snd (Dialogues_update P reg nonce m))
           = incomplete_to_complete_dialogue_labels reg"
proof -
  let ?B = "dialogues_by_dialogue_label reg"
  let ?I = "incomplete_to_complete_dialogue_labels reg"
  let ?k = "label_key \<lparr> label_dialogue_reference = (fst (dialogue_reference m), []),
                 dialogue_opponent_addr = s, dialogue_starter_addr = a \<rparr>"
  from inv have adr: "registry_agent_address reg = a" and mi: "maps_inv a ?B ?I"
    by (simp_all add: registry_inv_def)
  from e have "?I \<noteq> Map.empty" by auto
  with mi have a: "sval a \<noteq> []" by (auto dest: maps_inv_address)
  from maps_invD [OF mi e] have kB: "?B ?k = None"
    and CB: "label_key C \<in> dom ?B"
    and f: "fst (dialogue_reference m) \<noteq> []" and sn: "snd (dialogue_reference m) \<noteq> []"
    and kC: "?k = label_key (get_incomplete_version C)"
    by (auto simp: rc)
  from CB obtain d where d: "?B (label_key C) = Some d" by auto
  from kC rc have keyC: "label_key C = (dialogue_reference m, sval s, sval a)"
    by (simp add: label_key_def)
  have noI: "?I (dialogue_reference m, sval s, sval a) = None"
  proof (cases "?I (dialogue_reference m, sval s, sval a)")
    case (Some C')
    from maps_invD(2) [OF mi Some] sn show ?thesis by simp
  qed simp
  from t obtain tt where tt: "to m = Some tt" by (auto simp: has_to_def)
  from d have d': "?B (dialogue_reference m, sval s, sval a) = Some d" by (simp only: keyC)
  have "get_dialogue_ref reg m = Inr (Some ((dialogue_reference m, sval s, sval a), d))"
    using s a d' tt noI
    by (simp add: get_dialogue_ref_def Dialogues_is_message_by_self_def get_sender_def get_to_def
        Dialogues_agent_address_def adr get_latest_label_def get_dialogue_from_label_def
        label_key_def Let_def)
  then have gd: "get_dialogue_ref reg m = Inr (Some (label_key C, d))" by (simp only: keyC)
  then have g: "get_dialogue reg m = Inr (Some d)" by (simp add: get_dialogue_def)
  have cd: "complete_dialogue_reference reg m = (Inr (), reg)"
    using s a f sn kB
    by (simp add: complete_dialogue_reference_def Let_def UNASSIGNED_DIALOGUE_REFERENCE_def
        get_sender_def Dialogues_agent_address_def adr)
  have bo: "Dialogues_is_message_by_other reg m = Inr True"
    using s a adr by (intro by_other_intro) simp_all
  have upd: "Dialogues_update P reg nonce m =
            (case Dialogue_update P d m of
               Inl (InvalidDialogueMessage e) \<Rightarrow> (Inr None, reg)
             | Inl e \<Rightarrow> (Inl e, reg)
             | Inr d' \<Rightarrow>
                 (Inr (Some d'),
                  reg\<lparr>dialogues_by_dialogue_label :=
                        (dialogues_by_dialogue_label reg)(label_key C \<mapsto> d')\<rparr>))"
    using bo t sn cd gd
    by (simp add: Dialogues_update_def Let_def UNASSIGNED_DIALOGUE_REFERENCE_def)
  have app: "d' = d\<lparr>incoming_messages := incoming_messages d @ [m]\<rparr>"
    if up: "Dialogue_update P d m = Inr d'" for d'
  proof -
    from ownedD [OF own d] have "agent_address d = a" .
    with Dialogue_update_with_sender [OF up s(1)] s(2) show ?thesis by simp
  qed
  have "incomplete_to_complete_dialogue_labels (snd (Dialogues_update P reg nonce m)) = ?I"
  proof (cases "Dialogue_update P d m")
    case (Inl e)
    then show ?thesis unfolding upd by (cases e) simp_all
  next
    case (Inr d')
    then show ?thesis unfolding upd by simp
  qed
  moreover have "routes_to P reg nonce m C"
    unfolding routes_to_def using d g upd app by blast
  ultimately show ?thesis by blast
qed

text \<open>
  C5. Label promotion is one-way and idempotent. In every registry that calls of
  \<open>Dialogues.create\<close> and \<open>Dialogues.update\<close> (with nonces as \<open>token_hex\<close> draws them)
  and of \<open>reply\<close> and \<open>update\<close> on its dialogues produce: a promoted incomplete label is
  no key of the label-to-dialogue map, while its complete form is one (and differs from
  it); no call of \<open>update\<close> or \<open>create\<close> removes or overwrites an entry of the promotion
  map; an inbound message that carries the complete reference of a promoted label of
  the agent is routed to the dialogue stored under the complete label, and processing it
  leaves the promotion map as it is (the entries recorded when an opponent-initiated
  dialogue is created are the matter of C1); and when processing an inbound message with a
  complete reference has promoted a label (the promotion map gained the entry), the
  label is the incomplete label of the agent for that sender, and a second inbound
  message of the sender with the same reference is routed to the promoted dialogue
  without a change of the promotion map.
\<close>

theorem promotion_one_way_and_idempotent:
  fixes P :: "('p, 'c, 'r) protocol"
  assumes "registry_reachable P a reg"
  shows "(\<forall>k C. incomplete_to_complete_dialogue_labels reg k = Some C \<longrightarrow>
            k \<notin> dom (dialogues_by_dialogue_label reg)
            \<and> label_key C \<in> dom (dialogues_by_dialogue_label reg)
            \<and> k = label_key (get_incomplete_version C)
            \<and> k \<noteq> label_key C)
       \<and> (\<forall>k C nonce m. incomplete_to_complete_dialogue_labels reg k = Some C \<longrightarrow>
            incomplete_to_complete_dialogue_labels (snd (Dialogues_update P reg nonce m)) k
              = Some C)
       \<and> (\<forall>k C nonce cp perf kwargs.
            incomplete_to_complete_dialogue_labels reg k = Some C \<longrightarrow>
            incomplete_to_complete_dialogue_labels
              (snd (Dialogues_create P reg nonce cp perf kwargs)) k = Some C)
       \<and> (\<forall>m s C nonce.
            sender m = Some s \<and> sval s \<noteq> sval a \<and> has_to m
            \<and> incomplete_to_complete_dialogue_labels reg
                 (label_key \<lparr> label_dialogue_reference = (fst (dialogue_reference m), []),
                    dialogue_opponent_addr = s, dialogue_starter_addr = a \<rparr>) = Some C
            \<and> label_dialogue_reference C = dialogue_reference m \<longrightarrow>
            routes_to P reg nonce m C
            \<and> incomplete_to_complete_dialogue_labels (snd (Dialogues_update P reg nonce m))
                = incomplete_to_complete_dialogue_labels reg)
       \<and> (\<forall>m s nonce k C m2 s2 nonce2.
            sender m = Some s \<and> snd (dialogue_reference m) \<noteq> []
            \<and> incomplete_to_complete_dialogue_labels reg k = None
            \<and> incomplete_to_complete_dialogue_labels (snd (Dialogues_update P reg nonce m)) k
                 = Some C
            \<and> sender m2 = Some s2 \<and> sval s2 = sval s \<and> has_to m2
            \<and> dialogue_reference m2 = dialogue_reference m \<longrightarrow>
            k = label_key \<lparr> label_dialogue_reference = (fst (dialogue_reference m), []),
                    dialogue_opponent_addr = s, dialogue_starter_addr = a \<rparr>
            \<and> label_key C = (dialogue_reference m, sval s, sval a)
            \<and> k \<notin> dom (dialogues_by_dialogue_label (snd (Dialogues_update P reg nonce m)))
            \<and> routes_to P (snd (Dialogues_update P reg nonce m)) nonce2 m2 C
            \<and> incomplete_to_complete_dialogue_labels
                 (snd (Dialogues_update P (snd (Dialogues_update P reg nonce m)) nonce2 m2))
                = incomplete_to_complete_dialogue_labels (snd (Dialogues_update P reg nonce m)))"
proof -
  from registry_inv_reachable [OF assms] have inv: "registry_inv a reg" .
  from owned_reachable [OF assms] have own: "dialogues_owned a reg" .
  from inv have mi: "maps_inv a (dialogues_by_dialogue_label reg)
      (incomplete_to_complete_dialogue_labels reg)"
    and adr: "registry_agent_address reg = a" by (simp_all add: registry_inv_def)
  have one: "k \<notin> dom (dialogues_by_dialogue_label reg)
            \<and> label_key C \<in> dom (dialogues_by_dialogue_label reg)
            \<and> k = label_key (get_incomplete_version C)
            \<and> k \<noteq> label_key C"
    if e: "incomplete_to_complete_dialogue_labels reg k = Some C" for k C
    using maps_invD [OF mi e] by auto
  have two: "incomplete_to_complete_dialogue_labels (snd (Dialogues_update P reg nonce m)) k
              = Some C"
    if e: "incomplete_to_complete_dialogue_labels reg k = Some C" for k C nonce m
    using Dialogues_update_keeps [OF e] .
  have three: "incomplete_to_complete_dialogue_labels
              (snd (Dialogues_create P reg nonce cp perf kwargs)) k = Some C"
    if e: "incomplete_to_complete_dialogue_labels reg k = Some C" for k C nonce cp perf kwargs
    using e by (simp add: Dialogues_create_keeps)
  have five: "k = label_key \<lparr> label_dialogue_reference = (fst (dialogue_reference m), []),
                    dialogue_opponent_addr = s, dialogue_starter_addr = a \<rparr>
            \<and> label_key C = (dialogue_reference m, sval s, sval a)
            \<and> k \<notin> dom (dialogues_by_dialogue_label (snd (Dialogues_update P reg nonce m)))
            \<and> routes_to P (snd (Dialogues_update P reg nonce m)) nonce2 m2 C
            \<and> incomplete_to_complete_dialogue_labels
                 (snd (Dialogues_update P (snd (Dialogues_update P reg nonce m)) nonce2 m2))
                = incomplete_to_complete_dialogue_labels (snd (Dialogues_update P reg nonce m))"
    if h: "sender m = Some s" "snd (dialogue_reference m) \<noteq> []"
      "incomplete_to_complete_dialogue_labels reg k = None"
      "incomplete_to_complete_dialogue_labels (snd (Dialogues_update P reg nonce m)) k = Some C"
      "sender m2 = Some s2" "sval s2 = sval s" "has_to m2"
      "dialogue_reference m2 = dialogue_reference m"
    for m s nonce k C m2 s2 nonce2
  proof -
    let ?reg1 = "snd (Dialogues_update P reg nonce m)"
    have inv1: "registry_inv a ?reg1" using inv h(2) by (intro Dialogues_update_inv) simp_all
    have own1: "dialogues_owned a ?reg1" using own by (rule owned_Dialogues_update)
    from update_entry_gained [OF h(2) h(3) h(4)] h(1) adr
    have sa: "sval s \<noteq> sval a"
      and k: "k = label_key \<lparr> label_dialogue_reference = (fst (dialogue_reference m), []),
                    dialogue_opponent_addr = s, dialogue_starter_addr = a \<rparr>"
      and C: "C = \<lparr> label_dialogue_reference = dialogue_reference m,
                    dialogue_opponent_addr = s, dialogue_starter_addr = a \<rparr>"
      by auto
    from C have keyC: "label_key C = (dialogue_reference m, sval s, sval a)"
      by (simp add: label_key_def)
    from inv1 have mi1: "maps_inv a (dialogues_by_dialogue_label ?reg1)
        (incomplete_to_complete_dialogue_labels ?reg1)" by (simp add: registry_inv_def)
    from maps_invD(1) [OF mi1 h(4)] have kB: "k \<notin> dom (dialogues_by_dialogue_label ?reg1)" .
    have e2: "incomplete_to_complete_dialogue_labels ?reg1
              (label_key \<lparr> label_dialogue_reference = (fst (dialogue_reference m2), []),
                 dialogue_opponent_addr = s2, dialogue_starter_addr = a \<rparr>) = Some C"
      using h(4) h(6) h(8) k by (simp add: label_key_def)
    have rc: "label_dialogue_reference C = dialogue_reference m2" using C h(8) by simp
    have s2a: "sval s2 \<noteq> sval a" using sa h(6) by simp
    from promoted_message_routes [OF inv1 own1 h(5) s2a h(7) e2 rc, of P nonce2] k keyC kB
    show ?thesis by blast
  qed
  have c1: "\<forall>k C. incomplete_to_complete_dialogue_labels reg k = Some C \<longrightarrow>
            k \<notin> dom (dialogues_by_dialogue_label reg)
            \<and> label_key C \<in> dom (dialogues_by_dialogue_label reg)
            \<and> k = label_key (get_incomplete_version C)
            \<and> k \<noteq> label_key C"
    using one by blast
  have c2: "\<forall>k C nonce m. incomplete_to_complete_dialogue_labels reg k = Some C \<longrightarrow>
            incomplete_to_complete_dialogue_labels (snd (Dialogues_update P reg nonce m)) k
              = Some C"
    using two by blast
  have c3: "\<forall>k C nonce cp perf kwargs.
            incomplete_to_complete_dialogue_labels reg k = Some C \<longrightarrow>
            incomplete_to_complete_dialogue_labels
              (snd (Dialogues_create P reg nonce cp perf kwargs)) k = Some C"
    using three by blast
  have c4: "\<forall>m s C nonce.
            sender m = Some s \<and> sval s \<noteq> sval a \<and> has_to m
            \<and> incomplete_to_complete_dialogue_labels reg
                 (label_key \<lparr> label_dialogue_reference = (fst (dialogue_reference m), []),
                    dialogue_opponent_addr = s, dialogue_starter_addr = a \<rparr>) = Some C
            \<and> label_dialogue_reference C = dialogue_reference m \<longrightarrow>
            routes_to P reg nonce m C
            \<and> incomplete_to_complete_dialogue_labels (snd (Dialogues_update P reg nonce m))
                = incomplete_to_complete_dialogue_labels reg"
  proof (intro allI impI, elim conjE)
    fix m :: "('p, 'c) Message" and s C nonce
    assume "sender m = Some s" "sval s \<noteq> sval a" "has_to m"
      "incomplete_to_complete_dialogue_labels reg
                 (label_key \<lparr> label_dialogue_reference = (fst (dialogue_reference m), []),
                    dialogue_opponent_addr = s, dialogue_starter_addr = a \<rparr>) = Some C"
      "label_dialogue_reference C = dialogue_reference m"
    then show "routes_to P reg nonce m C
            \<and> incomplete_to_complete_dialogue_labels (snd (Dialogues_update P reg nonce m))
                = incomplete_to_complete_dialogue_labels reg"
      by (rule promoted_message_routes [OF inv own])
  qed
  have c5: "\<forall>m s nonce k C m2 s2 nonce2.
            sender m = Some s \<and> snd (dialogue_reference m) \<noteq> []
            \<and> incomplete_to_complete_dialogue_labels reg k = None
            \<and> incomplete_to_complete_dialogue_labels (snd (Dialogues_update P reg nonce m)) k
                 = Some C
            \<and> sender m2 = Some s2 \<and> sval s2 = sval s \<and> has_to m2
            \<and> dialogue_reference m2 = dialogue_reference m \<longrightarrow>
            k = label_key \<lparr> label_dialogue_reference = (fst (dialogue_reference m), []),
                    dialogue_opponent_addr = s, dialogue_starter_addr = a \<rparr>
            \<and> label_key C = (dialogue_reference m, sval s, sval a)
            \<and> k \<notin> dom (dialogues_by_dialogue_label (snd (Dialogues_update P reg nonce m)))
            \<and> routes_to P (snd (Dialogues_update P reg nonce m)) nonce2 m2 C
            \<and> incomplete_to_complete_dialogue_labels
                 (snd (Dialogues_update P (snd (Dialogues_update P reg nonce m)) nonce2 m2))
                = incomplete_to_complete_dialogue_labels (snd (Dialogues_update P reg nonce m))"
  proof (intro allI impI, elim conjE)
    fix m m2 :: "('p, 'c) Message" and s nonce k C s2 nonce2
    assume "sender m = Some s" "snd (dialogue_reference m) \<noteq> []"
      "incomplete_to_complete_dialogue_labels reg k = None"
      "incomplete_to_complete_dialogue_labels (snd (Dialogues_update P reg nonce m)) k = Some C"
      "sender m2 = Some s2" "sval s2 = sval s" "has_to m2"
      "dialogue_reference m2 = dialogue_reference m"
    then show "k = label_key \<lparr> label_dialogue_reference = (fst (dialogue_reference m), []),
                    dialogue_opponent_addr = s, dialogue_starter_addr = a \<rparr>
            \<and> label_key C = (dialogue_reference m, sval s, sval a)
            \<and> k \<notin> dom (dialogues_by_dialogue_label (snd (Dialogues_update P reg nonce m)))
            \<and> routes_to P (snd (Dialogues_update P reg nonce m)) nonce2 m2 C
            \<and> incomplete_to_complete_dialogue_labels
                 (snd (Dialogues_update P (snd (Dialogues_update P reg nonce m)) nonce2 m2))
                = incomplete_to_complete_dialogue_labels (snd (Dialogues_update P reg nonce m))"
      by (rule five)
  qed
  from c1 c2 c3 c4 c5 show ?thesis by (intro conjI)
qed

lemma bob_registry1_reachable: "registry_reachable t_protocol alice bob_registry1"
proof -
  have "registry_reachable t_protocol alice (alice_registry0 :: (Performative, unit, Role) Dialogues)"
    unfolding alice_registry0_def by (rule rr_init)
  from rr_create [OF this is_nonce_a, of bob PERFORMATIVE_PT "()"]
  show ?thesis by (simp add: bob_create)
qed

lemma bob_second_reply:
  "Dialogues_update t_protocol bob_registry2 nonce_a bob_message3
     = (Inr (Some bob_dialogue3),
        bob_registry2\<lparr>dialogues_by_dialogue_label :=
           (dialogues_by_dialogue_label bob_registry2)(label_key bob_final_label \<mapsto> bob_dialogue3)\<rparr>)"
  by (simp add: scenario_defs bob_dialogue3_def registry_eval dialogue_eval)

theorem promotion_one_way_and_idempotent_witness:
  "registry_reachable t_protocol alice bob_registry1
   \<and> sender bob_message2 = Some bob \<and> snd (dialogue_reference bob_message2) \<noteq> []
   \<and> incomplete_to_complete_dialogue_labels bob_registry1 (label_key bob_label) = None
   \<and> snd (Dialogues_update t_protocol bob_registry1 nonce_b bob_message2) = bob_registry2
   \<and> incomplete_to_complete_dialogue_labels bob_registry2 (label_key bob_label)
        = Some bob_final_label
   \<and> label_key bob_label \<notin> dom (dialogues_by_dialogue_label bob_registry2)
   \<and> label_key bob_final_label \<in> dom (dialogues_by_dialogue_label bob_registry2)
   \<and> routes_to t_protocol bob_registry2 nonce_a bob_message3 bob_final_label
   \<and> Dialogues_update t_protocol bob_registry2 nonce_a bob_message3
       = (Inr (Some bob_dialogue3),
          bob_registry2\<lparr>dialogues_by_dialogue_label :=
            (dialogues_by_dialogue_label bob_registry2)(label_key bob_final_label \<mapsto> bob_dialogue3)\<rparr>)
   \<and> incomplete_to_complete_dialogue_labels
        (snd (Dialogues_update t_protocol bob_registry2 nonce_a bob_message3))
        = incomplete_to_complete_dialogue_labels bob_registry2"
proof -
  note T1 = promotion_one_way_and_idempotent [OF bob_registry1_reachable]
  note T2 = promotion_one_way_and_idempotent [OF bob_registry2_reachable]
  have step: "snd (Dialogues_update t_protocol bob_registry1 nonce_b bob_message2) = bob_registry2"
    by (simp add: bob_reply_promotes)
  have none: "incomplete_to_complete_dialogue_labels bob_registry1 (label_key bob_label) = None"
    by (simp add: bob_registry1_def)
  have e: "incomplete_to_complete_dialogue_labels bob_registry2 (label_key bob_label)
        = Some bob_final_label"
    by (simp add: bob_registry2_def)
  have m2: "sender bob_message2 = Some bob" "snd (dialogue_reference bob_message2) \<noteq> []"
    by (simp_all add: bob_message2_def t_message_def nonce_b_def)
  have m3: "sender bob_message3 = Some bob" "sval bob = sval bob" "has_to bob_message3"
    "dialogue_reference bob_message3 = dialogue_reference bob_message2"
    by (simp_all add: bob_message3_def bob_message2_def t_message_def has_to_def)
  from T1 m2 none e [folded step] m3
  have five: "label_key bob_label \<notin> dom (dialogues_by_dialogue_label
                (snd (Dialogues_update t_protocol bob_registry1 nonce_b bob_message2)))
     \<and> routes_to t_protocol (snd (Dialogues_update t_protocol bob_registry1 nonce_b bob_message2))
          nonce_a bob_message3 bob_final_label
     \<and> incomplete_to_complete_dialogue_labels
          (snd (Dialogues_update t_protocol
                  (snd (Dialogues_update t_protocol bob_registry1 nonce_b bob_message2))
                  nonce_a bob_message3))
        = incomplete_to_complete_dialogue_labels
            (snd (Dialogues_update t_protocol bob_registry1 nonce_b bob_message2))"
    by blast
  from T2 [THEN conjunct1] e
  have one: "label_key bob_final_label \<in> dom (dialogues_by_dialogue_label bob_registry2)"
    by blast
  from five [unfolded step] one bob_registry1_reachable m2 none step e bob_second_reply
  show ?thesis by blast
qed

end
